theory Spec2Isabelle
  imports Main "HOL-Library.Word"
begin

unbundle bit_operations_syntax

section \<open>Data model of \<^verbatim>\<open>user/tsh.c\<close>\<close>

text \<open>
  The header \<^verbatim>\<open>user/tsh.h\<close> is not part of the sources at hand, so the limits it
  defines (\<^verbatim>\<open>TSH_MAX_CMD_LINE_LENGTH\<close>, \<^verbatim>\<open>TSH_MAX_NUM_TOKENS\<close>,
  \<^verbatim>\<open>TSH_MAX_NUM_ARGUMENTS\<close>, \<^verbatim>\<open>TSH_MAX_PIPELINE_LENGTH\<close>,
  \<^verbatim>\<open>TSH_MAX_CMD_LIST_LENGTH\<close>) are parameters of the functions that use them.

  A \<^verbatim>\<open>char *\<close> into the command line is the offset of the character it points to
  in \<^verbatim>\<open>line->buffer\<close>; a \<^verbatim>\<open>char *\<close> that may be null is an \<open>option\<close>.
  A pointer \<^verbatim>\<open>Token *p\<close> into a range that ends at \<^verbatim>\<open>tail\<close> is the list of the
  tokens from \<^verbatim>\<open>p\<close> up to \<^verbatim>\<open>tail\<close>: \<^verbatim>\<open>p < tail\<close> is \<open>p \<noteq> []\<close>, \<^verbatim>\<open>p++\<close> is
  \<open>tl p\<close> and \<^verbatim>\<open>p == tail\<close> is \<open>p = []\<close>.
\<close>

type_synonym cptr = nat

datatype TokenType =
    TOKEN_INVALID
  | TOKEN_WORD
  | TOKEN_PIPE
  | TOKEN_LIST
  | TOKEN_REDIRECT_OUTPUT
  | TOKEN_REDIRECT_OUTPUT_APPEND
  | TOKEN_REDIRECT_INPUT
  | TOKEN_BACKGROUND
  | TOKEN_GROUP_START
  | TOKEN_GROUP_END

record Token =
  tok_type :: TokenType
  tok_value :: cptr

datatype RedirectionType =
    REDIRECT_INPUT
  | REDIRECT_OUTPUT
  | REDIRECT_APPEND
  | REDIRECT_NONE

record Redirection =
  source_fd :: int
  dest_fd :: int
  path :: "cptr option"
  rtype :: RedirectionType

datatype CommandType =
    CMD_INVALID
  | CMD_EMPTY
  | CMD_SIMPLE
  | CMD_PIPELINE
  | CMD_LIST

definition CMD_SYNTAX_ERROR :: "32 word" where
  "CMD_SYNTAX_ERROR = 0x01"

definition CMD_TOO_MANY_ARGUMENTS :: "32 word" where
  "CMD_TOO_MANY_ARGUMENTS = 0x02"

definition CMD_MISSING_REDIRECTION_DESTINATION :: "32 word" where
  "CMD_MISSING_REDIRECTION_DESTINATION = 0x04"

definition CMD_ARGUMENT_AFTER_REDIRECT :: "32 word" where
  "CMD_ARGUMENT_AFTER_REDIRECT = 0x08"

definition CMD_PIPELINE_TOO_LONG :: "32 word" where
  "CMD_PIPELINE_TOO_LONG = 0x0f"

definition CMD_TOO_MANY_COMMANDS :: "32 word" where
  "CMD_TOO_MANY_COMMANDS = 0x10"

definition CMD_UNKNOWN_TYPE :: "32 word" where
  "CMD_UNKNOWN_TYPE = 0x20"

definition CMD_BACKGROUND_MODE :: "32 word" where
  "CMD_BACKGROUND_MODE = 0x010000"

text \<open>
  The union of a \<^verbatim>\<open>Command\<close> holds a pointer to a \<^verbatim>\<open>SimpleCommand\<close> or to the
  \<^verbatim>\<open>Pipeline\<close>. Every \<^verbatim>\<open>SimpleCommand\<close> lives in the array \<^verbatim>\<open>_simples\<close> of
  \<^verbatim>\<open>struct CommandData\<close> and the only \<^verbatim>\<open>Pipeline\<close> is its member \<^verbatim>\<open>_pipeline\<close>,
  so the pointer is an index into \<^verbatim>\<open>_simples\<close>, or the pipeline, or null.
\<close>

datatype cmd_union = NullCmd | SimplePtr nat | PipelinePtr

record Command =
  cmd_type :: CommandType
  cmd_flag :: "32 word"
  cmd_cmd :: cmd_union

record SimpleCommand =
  sc_type :: CommandType
  sc_flag :: "32 word"
  sc_name :: "cptr option"
  sc_argc :: nat
  sc_argv :: "cptr option list"
  sc_redirects :: "Redirection list"

record Pipeline =
  pl_type :: CommandType
  pl_flag :: "32 word"
  pl_len :: nat
  pl_commands :: "Command list"

record CommandData =
  n_simples :: nat
  simples :: "SimpleCommand list"
  pipeline :: Pipeline
  cmd :: Command

text \<open>The messages of \<^verbatim>\<open>ErrorU\<close>, \<^verbatim>\<open>ErrorS\<close> and \<^verbatim>\<open>Debug\<close>, in the order of the calls.\<close>

datatype diag = ErrorU string | ErrorS string | Debug string

section \<open>The parser\<close>

text \<open>
  \<^verbatim>\<open>find_next_toke_with_type\<close>: the pointer to the first token of the type from \<^verbatim>\<open>p\<close>
  on, \<^verbatim>\<open>tail\<close> when there is none.
\<close>

fun find_next_toke_with_type :: "TokenType \<Rightarrow> Token list \<Rightarrow> Token list" where
  "find_next_toke_with_type token_type [] = []"
| "find_next_toke_with_type token_type (p # ps) =
     (if tok_type p = token_type then p # ps
      else find_next_toke_with_type token_type ps)"

text \<open>
  The first loop of \<^verbatim>\<open>ParseSimpleCommand\<close>:
  \<^verbatim>\<open>while (p < tail && p->type == TOKEN_WORD && i < TSH_MAX_NUM_ARGUMENTS)\<close>.
  It returns \<^verbatim>\<open>p\<close>, \<^verbatim>\<open>i\<close> and the array \<^verbatim>\<open>argv\<close>.
\<close>

fun get_arguments ::
  "nat \<Rightarrow> Token list \<Rightarrow> nat \<Rightarrow> cptr option list \<Rightarrow> Token list \<times> nat \<times> cptr option list"
where
  "get_arguments max_args [] i argv = ([], i, argv)"
| "get_arguments max_args (p # ps) i argv =
     (if tok_type p = TOKEN_WORD \<and> i < max_args
      then get_arguments max_args ps (i + 1) (argv[i := Some (tok_value p)])
      else (p # ps, i, argv))"

definition init_redirect :: "int \<Rightarrow> Redirection" where
  "init_redirect i =
     \<lparr>source_fd = i, dest_fd = -1, path = None, rtype = REDIRECT_NONE\<rparr>"

definition set_redirect ::
  "nat \<Rightarrow> int \<Rightarrow> RedirectionType \<Rightarrow> SimpleCommand \<Rightarrow> SimpleCommand"
where
  "set_redirect fd src ty simple =
     simple\<lparr>sc_redirects :=
       (sc_redirects simple)[fd := (sc_redirects simple ! fd)\<lparr>source_fd := src, rtype := ty\<rparr>]\<rparr>"

definition set_redirect_path :: "nat \<Rightarrow> cptr \<Rightarrow> SimpleCommand \<Rightarrow> SimpleCommand" where
  "set_redirect_path fd v simple =
     simple\<lparr>sc_redirects :=
       (sc_redirects simple)[fd := (sc_redirects simple ! fd)\<lparr>path := Some v\<rparr>]\<rparr>"

definition or_flag :: "32 word \<Rightarrow> SimpleCommand \<Rightarrow> SimpleCommand" where
  "or_flag f simple = simple\<lparr>sc_flag := sc_flag simple OR f\<rparr>"

text \<open>
  The second loop of \<^verbatim>\<open>ParseSimpleCommand\<close>, \<^verbatim>\<open>while (p < tail)\<close>. The first component
  of the result says whether the function returned from inside the loop (a redirection
  without destination); the second is \<^verbatim>\<open>p\<close> when the loop is left.
\<close>

fun redirect_loop ::
  "Token list \<Rightarrow> SimpleCommand \<Rightarrow> diag list \<Rightarrow> bool \<times> Token list \<times> SimpleCommand \<times> diag list"
where
  "redirect_loop [] simple ds = (False, [], simple, ds)"
| "redirect_loop (p # ps) simple ds =
     (if tok_type p = TOKEN_REDIRECT_INPUT \<or> tok_type p = TOKEN_REDIRECT_OUTPUT
         \<or> tok_type p = TOKEN_REDIRECT_OUTPUT_APPEND
      then
        let fd = (if tok_type p = TOKEN_REDIRECT_INPUT then 0 else 1);
            simple1 =
              (if tok_type p = TOKEN_REDIRECT_INPUT then set_redirect 0 0 REDIRECT_INPUT simple
               else if tok_type p = TOKEN_REDIRECT_OUTPUT then set_redirect 1 1 REDIRECT_OUTPUT simple
               else set_redirect 1 1 REDIRECT_APPEND simple)
        in (case ps of
              [] \<Rightarrow>
                (True, p # ps, or_flag CMD_MISSING_REDIRECTION_DESTINATION simple1,
                 ds @ [ErrorU ''Missing redirection destination''])
            | q # qs \<Rightarrow>
                if tok_type q = TOKEN_WORD
                then redirect_loop qs (set_redirect_path fd (tok_value q) simple1) ds
                else (True, p # ps, or_flag CMD_MISSING_REDIRECTION_DESTINATION simple1,
                      ds @ [ErrorU ''Missing redirection destination'']))
      else if tok_type p = TOKEN_BACKGROUND
      then redirect_loop ps (or_flag CMD_BACKGROUND_MODE simple) ds
      else redirect_loop ps (or_flag CMD_SYNTAX_ERROR simple)
             (ds @ [ErrorU ''Syntax error - unexpected token type'']))"

text \<open>
  The block \<^verbatim>\<open>// get the command path\<close> of \<^verbatim>\<open>ParseSimpleCommand\<close>:
  \<^verbatim>\<open>if (p < tail && p->type == TOKEN_WORD)\<close> with \<^verbatim>\<open>p = start\<close>.
\<close>

definition get_command_path :: "Token list \<Rightarrow> SimpleCommand \<Rightarrow> SimpleCommand" where
  "get_command_path toks simple =
     (case toks of
        [] \<Rightarrow> simple
      | p # ps \<Rightarrow>
          if tok_type p = TOKEN_WORD
          then simple\<lparr>sc_type := CMD_SIMPLE, sc_name := Some (tok_value p), sc_flag := 0\<rparr>
          else simple)"

text \<open>
  \<^verbatim>\<open>ParseSimpleCommand(start, tail, simple)\<close>. The first argument is
  \<^verbatim>\<open>TSH_MAX_NUM_ARGUMENTS\<close>, the second the tokens from \<^verbatim>\<open>start\<close> up to \<^verbatim>\<open>tail\<close>, the
  third the contents of \<^verbatim>\<open>*simple\<close> at the call: the function leaves the fields it does
  not assign as they were. The result is \<^verbatim>\<open>*simple\<close> at the return and the diagnostics;
  the value the function returns is \<open>sc_flag\<close> of the result.
\<close>

definition ParseSimpleCommand ::
  "nat \<Rightarrow> Token list \<Rightarrow> SimpleCommand \<Rightarrow> SimpleCommand \<times> diag list"
where
  "ParseSimpleCommand max_args toks simple0 =
     (let simple1 = get_command_path toks (simple0\<lparr>sc_type := CMD_EMPTY\<rparr>);
          (p, i, argv) = get_arguments max_args toks 0 (sc_argv simple1);
          simple2 = simple1\<lparr>sc_argv := argv[i := None], sc_argc := i\<rparr>
      in if i > max_args
         then (or_flag CMD_TOO_MANY_ARGUMENTS simple2, [ErrorU ''too many arguments''])
         else
           let simple3 = simple2\<lparr>sc_redirects := [init_redirect 0, init_redirect 1, init_redirect 2]\<rparr>;
               (returned, p', simple4, ds) = redirect_loop p simple3 []
           in if returned then (simple4, ds)
              else if p' \<noteq> []
              then (or_flag (CMD_ARGUMENT_AFTER_REDIRECT OR CMD_SYNTAX_ERROR) simple4,
                    ds @ [ErrorU ''Syntax error - argument after redirection''])
              else (simple4, ds))"

text \<open>\<^verbatim>\<open>init_pipeline\<close> and \<^verbatim>\<open>set_command\<close>.\<close>

definition init_pipeline :: "Pipeline \<Rightarrow> Pipeline" where
  "init_pipeline pl = pl\<lparr>pl_type := CMD_PIPELINE, pl_flag := 0, pl_len := 0\<rparr>"

text \<open>
  The flag that \<^verbatim>\<open>set_command\<close> reads through \<^verbatim>\<open>concrete_command\<close>: the callers pass
  the pipeline with \<^verbatim>\<open>CMD_PIPELINE\<close> and a member of \<^verbatim>\<open>_simples\<close> with \<^verbatim>\<open>CMD_SIMPLE\<close>.
\<close>

fun flag_at :: "CommandData \<Rightarrow> cmd_union \<Rightarrow> 32 word" where
  "flag_at cd PipelinePtr = pl_flag (pipeline cd)"
| "flag_at cd (SimplePtr k) = sc_flag (simples cd ! k)"
| "flag_at cd NullCmd = 0"

definition set_command :: "CommandData \<Rightarrow> Command \<Rightarrow> CommandType \<Rightarrow> cmd_union \<Rightarrow> Command" where
  "set_command cd command ty concrete_command =
     (if ty = CMD_PIPELINE \<or> ty = CMD_SIMPLE
      then command\<lparr>cmd_type := ty, cmd_cmd := concrete_command,
                   cmd_flag := flag_at cd concrete_command\<rparr>
      else command\<lparr>cmd_type := CMD_INVALID, cmd_flag := CMD_UNKNOWN_TYPE\<rparr>)"

lemma length_find_next_toke_with_type:
  "length (find_next_toke_with_type ty ps) \<le> length ps"
  by (induction ps) auto

text \<open>
  The body of the \<^verbatim>\<open>if (curr < tail)\<close> in the loop of \<^verbatim>\<open>ParsePipeline\<close>, up to
  \<^verbatim>\<open>pipeline->len++\<close>: \<open>toks\<close> are the tokens from \<^verbatim>\<open>prev\<close> up to \<^verbatim>\<open>curr\<close>.
\<close>

definition add_stage :: "nat \<Rightarrow> Token list \<Rightarrow> CommandData \<Rightarrow> CommandData \<times> diag list" where
  "add_stage max_args toks cd =
     (let cd1 =
            (if pl_len (pipeline cd) = 0
             then
               let cd' = cd\<lparr>pipeline := init_pipeline (pipeline cd)\<rparr>
               in if cmd_type (cmd cd') \<noteq> CMD_LIST
                  then cd'\<lparr>cmd := set_command cd' (cmd cd') CMD_PIPELINE PipelinePtr\<rparr>
                  else cd'
             else cd);
          k = n_simples cd1;
          cd2 = cd1\<lparr>n_simples := k + 1\<rparr>;
          (simple, ds) = ParseSimpleCommand max_args toks (simples cd2 ! k);
          cd3 = cd2\<lparr>simples := (simples cd2)[k := simple]\<rparr>;
          pl = pipeline cd3;
          cd4 = cd3\<lparr>pipeline := pl\<lparr>pl_commands := (pl_commands pl)
                   [pl_len pl := set_command cd3 (pl_commands pl ! pl_len pl) CMD_SIMPLE (SimplePtr k)]\<rparr>\<rparr>;
          cd5 = cd4\<lparr>pipeline := (pipeline cd4)\<lparr>pl_len := pl_len (pipeline cd4) + 1\<rparr>\<rparr>
      in (cd5, ds))"

text \<open>
  The loop of \<^verbatim>\<open>ParsePipeline\<close>. The arguments are \<^verbatim>\<open>TSH_MAX_NUM_ARGUMENTS\<close>,
  \<^verbatim>\<open>TSH_MAX_PIPELINE_LENGTH\<close>, \<^verbatim>\<open>TSH_MAX_CMD_LIST_LENGTH\<close>, then \<^verbatim>\<open>prev\<close>, \<^verbatim>\<open>curr\<close> (as \<open>cur\<close>),
  \<^verbatim>\<open>*cmd_data\<close> and the diagnostics so far.
\<close>

function pipeline_loop ::
  "nat \<Rightarrow> nat \<Rightarrow> nat \<Rightarrow> Token list \<Rightarrow> Token list \<Rightarrow> CommandData \<Rightarrow> diag list
   \<Rightarrow> Token list \<times> CommandData \<times> diag list"
where
  "pipeline_loop max_args max_pl max_cmds prev cur cd ds =
     (if cur \<noteq> [] \<and> pl_len (pipeline cd) < max_pl \<and> n_simples cd < max_cmds
      then
        let cur1 = find_next_toke_with_type TOKEN_PIPE prev
        in if cur1 \<noteq> []
           then
             let (cd1, ds1) = add_stage max_args (take (length prev - length cur1) prev) cd
             in pipeline_loop max_args max_pl max_cmds (tl cur1) (tl cur1) cd1 (ds @ ds1)
           else pipeline_loop max_args max_pl max_cmds prev cur1 cd ds
      else (prev, cd, ds))"
  by pat_completeness auto
termination
proof (relation "measure (\<lambda>(ma, mp, mc, prev, cur, cd, ds).
                    2 * length prev + (if cur = [] then 0 else 1))", goal_cases)
  case 1
  show ?case by simp
next
  case (2 max_args max_pl max_cmds prev cur cd ds cur1 x cd1 ds1)
  have "length cur1 \<le> length prev"
    using 2 by (simp add: length_find_next_toke_with_type)
  moreover have "cur1 \<noteq> []" using 2 by simp
  ultimately have "length (tl cur1) < length prev"
    by (cases cur1) auto
  then show ?case by auto
next
  case 3
  then show ?case by auto
qed

declare pipeline_loop.simps [simp del]

definition or_pipeline_flag :: "32 word \<Rightarrow> CommandData \<Rightarrow> CommandData" where
  "or_pipeline_flag f cd =
     (let cd1 = cd\<lparr>pipeline := (pipeline cd)\<lparr>pl_flag := pl_flag (pipeline cd) OR f\<rparr>\<rparr>
      in cd1\<lparr>cmd := (cmd cd1)\<lparr>cmd_flag := cmd_flag (cmd cd1) OR pl_flag (pipeline cd1)\<rparr>\<rparr>)"

text \<open>
  \<^verbatim>\<open>ParsePipeline(head, tail, cmd_data)\<close>: \<open>toks\<close> are the tokens from \<^verbatim>\<open>head\<close> up to
  \<^verbatim>\<open>tail\<close>. \<^verbatim>\<open>ParseCommand\<close> only calls it.
\<close>

definition ParsePipeline ::
  "nat \<Rightarrow> nat \<Rightarrow> nat \<Rightarrow> Token list \<Rightarrow> CommandData \<Rightarrow> CommandData \<times> diag list"
where
  "ParsePipeline max_args max_pl max_cmds toks cd0 =
     (let (prev, cd, ds) = pipeline_loop max_args max_pl max_cmds toks toks cd0 []
      in if n_simples cd \<ge> max_cmds
         then (or_pipeline_flag CMD_TOO_MANY_COMMANDS cd, ds @ [ErrorU ''Too many commands''])
         else
           let k = n_simples cd;
               cd1 = cd\<lparr>n_simples := k + 1\<rparr>;
               (simple, ds1) = ParseSimpleCommand max_args prev (simples cd1 ! k);
               cd2 = cd1\<lparr>simples := (simples cd1)[k := simple]\<rparr>;
               cd3 = (if pl_len (pipeline cd2) = 0
                      then cd2\<lparr>cmd := set_command cd2 (cmd cd2) CMD_SIMPLE (SimplePtr k)\<rparr>
                      else cd2)
           in if pl_len (pipeline cd3) \<ge> max_pl
              then (or_pipeline_flag CMD_PIPELINE_TOO_LONG cd3,
                    ds @ ds1 @ [ErrorU ''Pipeline too long''])
              else if pl_len (pipeline cd3) > 0
              then
                let pl = pipeline cd3;
                    cd4 = cd3\<lparr>pipeline := pl\<lparr>pl_commands := (pl_commands pl)
                            [pl_len pl := set_command cd3 (pl_commands pl ! pl_len pl) CMD_SIMPLE (SimplePtr k)]\<rparr>\<rparr>
                in (cd4\<lparr>pipeline := (pipeline cd4)\<lparr>pl_len := pl_len (pipeline cd4) + 1\<rparr>\<rparr>,
                    ds @ ds1)
              else (cd3, ds @ ds1))"

definition ParseCommand ::
  "nat \<Rightarrow> nat \<Rightarrow> nat \<Rightarrow> Token list \<Rightarrow> CommandData \<Rightarrow> CommandData \<times> diag list"
where
  "ParseCommand = ParsePipeline"

text \<open>
  \<^verbatim>\<open>this_shell\<close> is a global, so all its members are zero when \<^verbatim>\<open>main\<close> starts: the
  zero of each enumeration is its first constant and a null pointer is \<open>None\<close>.
\<close>

definition zero_Redirection :: Redirection where
  "zero_Redirection = \<lparr>source_fd = 0, dest_fd = 0, path = None, rtype = REDIRECT_INPUT\<rparr>"

definition zero_SimpleCommand :: "nat \<Rightarrow> SimpleCommand" where
  "zero_SimpleCommand max_args =
     \<lparr>sc_type = CMD_INVALID, sc_flag = 0, sc_name = None, sc_argc = 0,
      sc_argv = replicate (max_args + 1) None,
      sc_redirects = replicate 3 zero_Redirection\<rparr>"

definition zero_Command :: Command where
  "zero_Command = \<lparr>cmd_type = CMD_INVALID, cmd_flag = 0, cmd_cmd = NullCmd\<rparr>"

definition zero_CommandData :: "nat \<Rightarrow> nat \<Rightarrow> nat \<Rightarrow> CommandData" where
  "zero_CommandData max_args max_pl max_cmds =
     \<lparr>n_simples = 0,
      simples = replicate max_cmds (zero_SimpleCommand max_args),
      pipeline = \<lparr>pl_type = CMD_INVALID, pl_flag = 0, pl_len = 0,
                  pl_commands = replicate max_pl zero_Command\<rparr>,
      cmd = zero_Command\<rparr>"

section \<open>The line buffer\<close>

text \<open>
  What the model reports when the C program leaves the memory of an object: a store
  or a load at an index outside an array, or the use of a null pointer. The C standard
  leaves the behaviour of the program undefined from there on.
\<close>

datatype fault =
    StoreOutOfBounds string nat nat
  | LoadOutOfBounds string nat nat
  | NullPointer string

text \<open>
  \<^verbatim>\<open>struct BufferedLine\<close>: \<open>bl_buffer\<close> has \<^verbatim>\<open>TSH_MAX_CMD_LINE_LENGTH\<close> characters, so
  \<^verbatim>\<open>sizeof(line->buffer)\<close> is its length.
\<close>

record BufferedLine =
  bl_len :: nat
  bl_buffer :: "char list"

text \<open>
  \<^verbatim>\<open>c == '\n' || c == EOF\<close> with \<^verbatim>\<open>EOF\<close> defined as \<open>-1\<close>. Whether a \<^verbatim>\<open>char\<close> can equal
  \<open>-1\<close> depends on the signedness of \<^verbatim>\<open>char\<close> on the platform, which is a parameter:
  where \<^verbatim>\<open>char\<close> is signed the byte \<open>0xFF\<close> compares equal, where it is unsigned no
  byte does.
\<close>

definition stops_line :: "bool \<Rightarrow> char \<Rightarrow> bool" where
  "stops_line char_signed c \<longleftrightarrow> c = CHR 0x0A \<or> (char_signed \<and> c = CHR 0xFF)"

text \<open>
  The loop of \<^verbatim>\<open>ReadLine\<close>. The standard input is the list of the bytes that the
  successive calls \<^verbatim>\<open>read(0, &c, 1)\<close> deliver; when it is empty, \<^verbatim>\<open>read\<close> does not return
  1 (end of file or error). The pointer \<^verbatim>\<open>p\<close> is its offset in the buffer. The result is
  \<^verbatim>\<open>nleft\<close>, the buffer and the input that is left.
\<close>

fun read_loop ::
  "bool \<Rightarrow> nat \<Rightarrow> char list \<Rightarrow> nat \<Rightarrow> char list \<Rightarrow> nat \<times> char list \<times> char list"
where
  "read_loop char_signed nleft buffer p [] = (nleft, buffer, [])"
| "read_loop char_signed nleft buffer p (c # input) =
     (if nleft > 0
      then
        if stops_line char_signed c then (nleft, buffer, input)
        else read_loop char_signed (nleft - 1) (buffer[p := c]) (p + 1) input
      else (nleft, buffer, c # input))"

text \<open>
  \<^verbatim>\<open>ReadLine\<close>: the value it returns is \<open>bl_len\<close> of the line in the result. The store
  \<^verbatim>\<open>line->buffer[line->len] = '\0'\<close> is inside the array only when
  \<^verbatim>\<open>line->len < sizeof(line->buffer)\<close>.
\<close>

definition ReadLine ::
  "bool \<Rightarrow> BufferedLine \<Rightarrow> char list \<Rightarrow> fault + (BufferedLine \<times> char list)"
where
  "ReadLine char_signed line input =
     (let size = length (bl_buffer line);
          (nleft, buffer, rest) = read_loop char_signed size (bl_buffer line) 0 input;
          len = size - nleft
      in if len < size
         then Inr (\<lparr>bl_len = len, bl_buffer = buffer[len := CHR 0x00]\<rparr>, rest)
         else Inl (StoreOutOfBounds ''line->buffer'' len size))"

text \<open>\<^verbatim>\<open>ClearLine\<close> fills the buffer with zeros.\<close>

definition ClearLine :: "BufferedLine \<Rightarrow> BufferedLine" where
  "ClearLine line =
     \<lparr>bl_len = 0, bl_buffer = replicate (length (bl_buffer line)) (CHR 0x00)\<rparr>"

text \<open>
  The bytes that \<^verbatim>\<open>ReadLine\<close> copies into a buffer of \<open>cap\<close> characters: those before
  the first byte that stops the line, and at most \<open>cap\<close> of them.
\<close>

definition copied :: "bool \<Rightarrow> nat \<Rightarrow> char list \<Rightarrow> char list" where
  "copied cs cap input = takeWhile (\<lambda>c. \<not> stops_line cs c) (take cap input)"

section \<open>The lexer\<close>

text \<open>
  \<^verbatim>\<open>struct TokenList\<close>: \<open>tl_tokens\<close> has \<^verbatim>\<open>TSH_MAX_NUM_TOKENS\<close> members.
\<close>

record TokenList =
  tl_len :: nat
  tl_tokens :: "Token list"

text \<open>
  The two character classes, \<^verbatim>\<open>" \t\r\n\v"\<close> and \<^verbatim>\<open>"<|>&;"\<close>, and the test
  \<^verbatim>\<open>strchr(s, c) != 0\<close> of the library of the target system: \<^verbatim>\<open>c\<close> is one of the
  characters of \<^verbatim>\<open>s\<close> before its terminator.
\<close>

definition whitespace :: string where
  "whitespace = [CHR 0x20, CHR 0x09, CHR 0x0D, CHR 0x0A, CHR 0x0B]"

definition symbols :: string where
  "symbols = ''<|>&;''"

definition strchr :: "string \<Rightarrow> char \<Rightarrow> bool" where
  "strchr s c \<longleftrightarrow> c \<in> set s"

text \<open>\<^verbatim>\<open>strlen\<close>: the offset of the first zero character.\<close>

definition strlen :: "char list \<Rightarrow> nat" where
  "strlen buf = length (takeWhile (\<lambda>c. c \<noteq> CHR 0x00) buf)"

text \<open>
  The inner loops \<^verbatim>\<open>while (p < tail && strchr(whitespace, *p)) p++\<close> and
  \<^verbatim>\<open>while (p < tail && !strchr(whitespace, *p) && !strchr(symbols, *p)) p++\<close>; pointers
  into the buffer are offsets.
\<close>

function skip_whitespace :: "char list \<Rightarrow> nat \<Rightarrow> nat \<Rightarrow> nat" where
  "skip_whitespace buf tail p =
     (if p < tail \<and> strchr whitespace (buf ! p) then skip_whitespace buf tail (p + 1) else p)"
  by pat_completeness auto
termination
  by (relation "measure (\<lambda>(buf, tail, p). tail - p)") auto

declare skip_whitespace.simps [simp del]

function scan_word :: "char list \<Rightarrow> nat \<Rightarrow> nat \<Rightarrow> nat" where
  "scan_word buf tail p =
     (if p < tail \<and> \<not> strchr whitespace (buf ! p) \<and> \<not> strchr symbols (buf ! p)
      then scan_word buf tail (p + 1) else p)"
  by pat_completeness auto
termination
  by (relation "measure (\<lambda>(buf, tail, p). tail - p)") auto

declare scan_word.simps [simp del]

text \<open>
  The two stores \<^verbatim>\<open>tl->tokens[idx].type = ...\<close> and \<^verbatim>\<open>tl->tokens[idx].value = p\<close>. They
  are inside the array only for \<^verbatim>\<open>idx < TSH_MAX_NUM_TOKENS\<close>.
\<close>

definition put_token :: "Token list \<Rightarrow> nat \<Rightarrow> TokenType \<Rightarrow> cptr \<Rightarrow> fault + Token list" where
  "put_token toks idx ty v =
     (if idx < length toks then Inr (toks[idx := \<lparr>tok_type = ty, tok_value = v\<rparr>])
      else Inl (StoreOutOfBounds ''tl->tokens'' idx (length toks)))"

text \<open>The \<^verbatim>\<open>switch (next_char)\<close>.\<close>

definition symbol_type :: "char \<Rightarrow> TokenType" where
  "symbol_type next_char =
     (if next_char = CHR ''<'' then TOKEN_REDIRECT_INPUT
      else if next_char = CHR ''>'' then TOKEN_REDIRECT_OUTPUT
      else if next_char = CHR ''|'' then TOKEN_PIPE
      else if next_char = CHR ''&'' then TOKEN_BACKGROUND
      else if next_char = CHR '';'' then TOKEN_LIST
      else TOKEN_INVALID)"

text \<open>
  The block \<^verbatim>\<open>if (!strchr(symbols, next_char)) { ... }\<close>, entered with
  \<^verbatim>\<open>next_char = *p\<close>: it returns the buffer, \<^verbatim>\<open>p\<close>, \<^verbatim>\<open>idx\<close>, the tokens and
  \<^verbatim>\<open>next_char\<close>. After a word it has stored a zero over the character that follows the
  word, which \<^verbatim>\<open>next_char\<close> keeps.
\<close>

definition word_part ::
  "nat \<Rightarrow> char list \<Rightarrow> nat \<Rightarrow> nat \<Rightarrow> Token list
   \<Rightarrow> fault + (char list \<times> nat \<times> nat \<times> Token list \<times> char)"
where
  "word_part tail buf p idx toks =
     (let next_char = buf ! p
      in if \<not> strchr symbols next_char
         then
           (case put_token toks idx TOKEN_WORD p of
              Inl f \<Rightarrow> Inl f
            | Inr toks1 \<Rightarrow>
                let p1 = scan_word buf tail p
                in Inr (buf[p1 := CHR 0x00], p1, idx + 1, toks1, buf ! p1))
         else Inr (buf, p, idx, toks, next_char))"

text \<open>
  The rest of the body of the loop: \<^verbatim>\<open>if (strchr(whitespace, next_char))\<close> and
  \<^verbatim>\<open>if (strchr(symbols, next_char))\<close>. It returns \<^verbatim>\<open>p\<close>, \<^verbatim>\<open>idx\<close> and the tokens.
\<close>

definition symbol_part ::
  "char list \<Rightarrow> nat \<Rightarrow> nat \<Rightarrow> Token list \<Rightarrow> char \<Rightarrow> fault + (nat \<times> nat \<times> Token list)"
where
  "symbol_part buf p idx toks next_char =
     (if strchr whitespace next_char then Inr (p + 1, idx, toks)
      else if strchr symbols next_char
      then
        if next_char = CHR ''>'' \<and> buf ! (p + 1) = CHR ''>''
        then
          (case put_token toks idx TOKEN_REDIRECT_OUTPUT_APPEND p of
             Inl f \<Rightarrow> Inl f
           | Inr toks1 \<Rightarrow> Inr (p + 2, idx + 1, toks1))
        else
          (case put_token toks idx (symbol_type next_char) p of
             Inl f \<Rightarrow> Inl f
           | Inr toks1 \<Rightarrow> Inr (p + 1, idx + 1, toks1))
      else Inr (p, idx, toks))"

text \<open>
  One pass through the body of the loop of \<^verbatim>\<open>Tokenize\<close>. The first component of the
  result is false when the body leaves the loop with \<^verbatim>\<open>break\<close>.
\<close>

definition tokenize_step ::
  "nat \<Rightarrow> char list \<Rightarrow> nat \<Rightarrow> nat \<Rightarrow> Token list
   \<Rightarrow> fault + (bool \<times> char list \<times> nat \<times> nat \<times> Token list)"
where
  "tokenize_step tail buf p idx toks =
     (let p1 = skip_whitespace buf tail p
      in if p1 = tail then Inr (False, buf, p1, idx, toks)
         else
           (case word_part tail buf p1 idx toks of
              Inl f \<Rightarrow> Inl f
            | Inr (buf2, p2, idx2, toks2, next_char) \<Rightarrow>
                (case symbol_part buf2 p2 idx2 toks2 next_char of
                   Inl f \<Rightarrow> Inl f
                 | Inr (p3, idx3, toks3) \<Rightarrow> Inr (True, buf2, p3, idx3, toks3))))"

lemma skip_whitespace_ge: "p \<le> skip_whitespace buf tail p"
proof (induction buf tail p rule: skip_whitespace.induct)
  case (1 buf tail p)
  then show ?case
    by (subst skip_whitespace.simps) (auto simp: Suc_leD)
qed

lemma skip_whitespace_stop:
  "skip_whitespace buf tail p < tail \<Longrightarrow>
   \<not> strchr whitespace (buf ! skip_whitespace buf tail p)"
proof (induction buf tail p rule: skip_whitespace.induct)
  case (1 buf tail p)
  show ?case
  proof (cases "p < tail \<and> strchr whitespace (buf ! p)")
    case True
    then have eq: "skip_whitespace buf tail p = skip_whitespace buf tail (p + 1)"
      by (subst skip_whitespace.simps) simp
    show ?thesis using "1.IH" [OF True] "1.prems" unfolding eq by simp
  next
    case False
    then have eq: "skip_whitespace buf tail p = p"
      by (subst skip_whitespace.simps) auto
    show ?thesis using False "1.prems" unfolding eq by simp
  qed
qed

lemma scan_word_ge: "p \<le> scan_word buf tail p"
proof (induction buf tail p rule: scan_word.induct)
  case (1 buf tail p)
  then show ?case
    by (subst scan_word.simps) (auto simp: Suc_leD)
qed

lemma scan_word_gt:
  "p < tail \<Longrightarrow> \<not> strchr whitespace (buf ! p) \<Longrightarrow> \<not> strchr symbols (buf ! p) \<Longrightarrow>
   p < scan_word buf tail p"
  using scan_word_ge [of "p + 1" buf tail]
  by (subst scan_word.simps) simp

lemma tokenize_step_progress:
  assumes "tokenize_step tail buf p idx toks = Inr (True, buf', p', idx', toks')"
    and "p < tail"
  shows "p < p'"
proof -
  define p1 where "p1 = skip_whitespace buf tail p"
  have p1: "p \<le> p1" by (simp add: p1_def skip_whitespace_ge)
  have ne: "p1 \<noteq> tail"
    using assms(1) by (auto simp: tokenize_step_def Let_def p1_def)
  obtain buf2 p2 idx2 toks2 next_char where wp:
    "word_part tail buf p1 idx toks = Inr (buf2, p2, idx2, toks2, next_char)"
    using assms(1) ne
    by (auto simp: tokenize_step_def Let_def p1_def [symmetric] split: sum.splits)
  then have sp: "symbol_part buf2 p2 idx2 toks2 next_char = Inr (p', idx', toks')"
    using assms(1) ne
    by (auto simp: tokenize_step_def Let_def p1_def [symmetric] split: sum.splits)
  have p3: "p2 \<le> p'"
    using sp by (auto simp: symbol_part_def split: if_splits sum.splits)
  show ?thesis
  proof (cases "strchr symbols (buf ! p1)")
    case True
    then have "p2 = p1" "next_char = buf ! p1"
      using wp by (auto simp: word_part_def Let_def)
    then have "p1 < p'"
      using sp True by (auto simp: symbol_part_def split: if_splits sum.splits)
    then show ?thesis using p1 by simp
  next
    case False
    have "p1 < tail \<or> tail < p1" using ne by auto
    then show ?thesis
    proof
      assume lt: "p1 < tail"
      then have "\<not> strchr whitespace (buf ! p1)"
        using skip_whitespace_stop [of buf tail p] by (simp add: p1_def)
      then have "p1 < scan_word buf tail p1"
        using scan_word_gt lt False by simp
      moreover have "p2 = scan_word buf tail p1"
        using wp False by (auto simp: word_part_def Let_def split: sum.splits)
      ultimately show ?thesis using p1 p3 by simp
    next
      assume "tail < p1"
      moreover have "p1 \<le> p2"
        using wp scan_word_ge [of p1 buf tail]
        by (auto simp: word_part_def Let_def split: sum.splits if_splits)
      ultimately show ?thesis using assms(2) p3 by simp
    qed
  qed
qed

text \<open>
  The loop \<^verbatim>\<open>while (p < tail && idx < sizeof(tl->tokens))\<close> of \<^verbatim>\<open>Tokenize\<close>. The first
  argument is \<^verbatim>\<open>sizeof(tl->tokens)\<close>, the size of the array in bytes. The result is the
  buffer, \<^verbatim>\<open>idx\<close> and the tokens.
\<close>

function tokenize_loop ::
  "nat \<Rightarrow> nat \<Rightarrow> char list \<Rightarrow> nat \<Rightarrow> nat \<Rightarrow> Token list
   \<Rightarrow> fault + (char list \<times> nat \<times> Token list)"
where
  "tokenize_loop sizeof_tokens tail buf p idx toks =
     (if p < tail \<and> idx < sizeof_tokens
      then
        (case tokenize_step tail buf p idx toks of
           Inl f \<Rightarrow> Inl f
         | Inr (go, buf', p', idx', toks') \<Rightarrow>
             if go then tokenize_loop sizeof_tokens tail buf' p' idx' toks'
             else Inr (buf', idx', toks'))
      else Inr (buf, idx, toks))"
  by pat_completeness auto
termination
proof (relation "measure (\<lambda>(sizeof_tokens, tail, buf, p, idx, toks). tail - p)", goal_cases)
  case 1
  show ?case by simp
next
  case (2 sizeof_tokens tail buf p idx toks r go rest buf' rest' p' rest'' idx' toks')
  then have "tokenize_step tail buf p idx toks = Inr (True, buf', p', idx', toks')"
    by simp
  then have "p < p'" using 2 tokenize_step_progress by blast
  then show ?case using 2 by auto
qed

declare tokenize_loop.simps [simp del]

text \<open>
  \<^verbatim>\<open>Tokenize(line, tl)\<close>, with \<open>tlist\<close> for \<^verbatim>\<open>*tl\<close>. \<^verbatim>\<open>strlen\<close> needs a zero character inside the buffer. The
  loads of the loop are at offsets up to \<^verbatim>\<open>tail\<close>, where that zero is.
\<close>

definition Tokenize ::
  "nat \<Rightarrow> BufferedLine \<Rightarrow> TokenList \<Rightarrow> fault + (BufferedLine \<times> TokenList)"
where
  "Tokenize sizeof_tokens line tlist =
     (let tail = strlen (bl_buffer line)
      in if tail \<ge> length (bl_buffer line)
         then Inl (LoadOutOfBounds ''line->buffer'' tail (length (bl_buffer line)))
         else
           (case tokenize_loop sizeof_tokens tail (bl_buffer line) 0 0 (tl_tokens tlist) of
              Inl f \<Rightarrow> Inl f
            | Inr (buf, idx, toks) \<Rightarrow>
                Inr (line\<lparr>bl_buffer := buf\<rparr>, \<lparr>tl_len = idx, tl_tokens = toks\<rparr>)))"

subsection \<open>The token kinds as the specification describes them\<close>

text \<open>
  The rules of the specification of the lexer, on the characters of the line: runs of
  whitespace are skipped; a word is a maximal run of characters that are neither
  whitespace nor symbols; \<^verbatim>\<open>>>\<close> is one \<^verbatim>\<open>RedirOutAppend\<close> token; every other symbol
  is a token of one character. This function is written from the specification, not
  from the code: the theorem for C9 compares \<^verbatim>\<open>Tokenize\<close> with it.
\<close>

definition word_char :: "char \<Rightarrow> bool" where
  "word_char c \<longleftrightarrow> \<not> strchr whitespace c \<and> \<not> strchr symbols c"

function spec_token_kinds :: "char list \<Rightarrow> TokenType list" where
  "spec_token_kinds [] = []"
| "spec_token_kinds (c # cs) =
     (if strchr whitespace c then spec_token_kinds cs
      else if strchr symbols c
      then
        if c = CHR ''>'' \<and> cs \<noteq> [] \<and> hd cs = CHR ''>''
        then TOKEN_REDIRECT_OUTPUT_APPEND # spec_token_kinds (tl cs)
        else symbol_type c # spec_token_kinds cs
      else TOKEN_WORD # spec_token_kinds (dropWhile word_char cs))"
  by pat_completeness auto
termination
proof (relation "measure length", goal_cases)
  case 1
  show ?case by simp
next
  case 2
  then show ?case by simp
next
  case (3 c cs)
  then show ?case by (cases cs) auto
next
  case 4
  then show ?case by simp
next
  case (5 c cs)
  show ?case
    using length_dropWhile_le [of word_char cs] by simp
qed

text \<open>The characters of the buffer from offset \<open>p\<close> up to \<open>tail\<close>.\<close>

definition seg :: "char list \<Rightarrow> nat \<Rightarrow> nat \<Rightarrow> char list" where
  "seg buf tail p = drop p (take tail buf)"

text \<open>The types of the first \<open>idx\<close> tokens, and the C string at the start of a buffer.\<close>

definition kinds :: "nat \<Rightarrow> Token list \<Rightarrow> TokenType list" where
  "kinds idx toks = map tok_type (take idx toks)"

definition c_string :: "char list \<Rightarrow> char list" where
  "c_string buf = takeWhile (\<lambda>c. c \<noteq> CHR 0x00) buf"

section \<open>The shell state and \<^verbatim>\<open>GetCommand\<close>\<close>

text \<open>
  What the functions below take from outside the source file: the signedness of
  \<^verbatim>\<open>char\<close>, \<^verbatim>\<open>sizeof(tl->tokens)\<close> in bytes, and the three limits of the parser.
\<close>

record config =
  cfg_char_signed :: bool
  cfg_sizeof_tokens :: nat
  cfg_max_args :: nat
  cfg_max_pipeline :: nat
  cfg_max_cmds :: nat

text \<open>
  \<^verbatim>\<open>struct ShellState\<close>. The member \<^verbatim>\<open>cmd\<close> always points to \<^verbatim>\<open>_cmd_data.cmd\<close> (\<^verbatim>\<open>main\<close>
  and \<^verbatim>\<open>GetCommand\<close> assign nothing else to it), so it is not a field of the record:
  \<^verbatim>\<open>shell->cmd\<close> is \<open>cmd (sh_cmd_data shell)\<close>.
\<close>

record ShellState =
  sh_should_run :: bool
  sh_last_exit_status :: int
  sh_prompt :: string
  sh_cmdline :: BufferedLine
  sh_tokens :: TokenList
  sh_name :: string
  sh_cmd_data :: CommandData

text \<open>
  A C string passed to a system call: a null pointer, a pointer into the command line,
  or a string constant of the program.
\<close>

datatype carg = Null | InLine cptr | Const string

fun carg_of :: "cptr option \<Rightarrow> carg" where
  "carg_of None = Null"
| "carg_of (Some p) = InLine p"

datatype open_flag = O_RDONLY | O_WRONLY | O_CREATE

text \<open>
  The calls a process makes, in their order: the system calls with their arguments and
  the diagnostics. The arguments of \<^verbatim>\<open>exec\<close> are the path and the members of
  \<^verbatim>\<open>argv\<close> before its first null pointer.
\<close>

datatype event =
    Write int string
  | Fork
  | Wait
  | Pipe
  | Open carg "open_flag list"
  | Close int
  | Dup int
  | Exec carg "carg list"
  | Exit int
  | Chdir carg
  | Diag diag

text \<open>
  The answers of the system, and \<^verbatim>\<open>atoi\<close> of the library. A process is deterministic
  once the answers to its calls are fixed: \<open>sys_ret env n\<close> is the value that the call
  recorded as event number \<open>n\<close> of the process returns (\<^verbatim>\<open>fork\<close>, \<^verbatim>\<open>open\<close>, \<^verbatim>\<open>chdir\<close>);
  \<open>sys_pipe env n\<close> are the two descriptors that \<^verbatim>\<open>pipe\<close> stores, \<open>sys_status env n\<close> is
  the status that \<^verbatim>\<open>wait\<close> stores, and \<open>exec_fails env n\<close> says whether \<^verbatim>\<open>exec\<close> comes
  back. A child starts with the events of its parent up to the \<^verbatim>\<open>fork\<close> that returns 0
  to it.
\<close>

record os_env =
  sys_ret :: "nat \<Rightarrow> int"
  sys_pipe :: "nat \<Rightarrow> int \<times> int"
  sys_status :: "nat \<Rightarrow> int"
  exec_fails :: "nat \<Rightarrow> bool"
  lib_atoi :: "string \<Rightarrow> int"

text \<open>
  How a function ends in the process that runs it: it returns a value, the process
  ends in \<^verbatim>\<open>exit\<close>, \<^verbatim>\<open>exec\<close> replaces the program, or the program leaves defined
  behaviour.
\<close>

datatype 'a outcome = Returns 'a | Exits int | Replaced | Faults fault

text \<open>\<^verbatim>\<open>GetCommand\<close>, reading the line from the input. It returns \<^verbatim>\<open>ret\<close>.\<close>

definition GetCommand ::
  "config \<Rightarrow> ShellState \<Rightarrow> char list \<Rightarrow> event list
   \<Rightarrow> int outcome \<times> ShellState \<times> char list \<times> event list"
where
  "GetCommand cfg shell input tr =
     (let tr1 = tr @ [Write 1 (sh_prompt shell)]
      in case ReadLine (cfg_char_signed cfg) (ClearLine (sh_cmdline shell)) input of
           Inl f \<Rightarrow> (Faults f, shell, input, tr1)
         | Inr (line, rest) \<Rightarrow>
             let ret = int (bl_len line);
                 shell1 = shell\<lparr>sh_cmdline := line\<rparr>
             in if 0 < ret
                then
                  (case Tokenize (cfg_sizeof_tokens cfg) line (sh_tokens shell1) of
                     Inl f \<Rightarrow> (Faults f, shell1, rest, tr1)
                   | Inr (line', tlist) \<Rightarrow>
                       let cd0 = sh_cmd_data shell1;
                           cd1 = cd0\<lparr>n_simples := 0, pipeline := (pipeline cd0)\<lparr>pl_len := 0\<rparr>\<rparr>;
                           (cd2, ds) = ParseCommand (cfg_max_args cfg) (cfg_max_pipeline cfg)
                                         (cfg_max_cmds cfg) (take (tl_len tlist) (tl_tokens tlist)) cd1
                       in (Returns ret,
                           shell1\<lparr>sh_cmdline := line', sh_tokens := tlist, sh_cmd_data := cd2\<rparr>,
                           rest, tr1 @ map Diag ds))
                else (Returns ret,
                      shell1\<lparr>sh_should_run := False, sh_last_exit_status := ret\<rparr>, rest, tr1))"

section \<open>The executor\<close>

text \<open>The C string at an offset of the command line, and the arguments of \<^verbatim>\<open>exec\<close>.\<close>

definition cstr_at :: "char list \<Rightarrow> cptr \<Rightarrow> string" where
  "cstr_at buf p = takeWhile (\<lambda>c. c \<noteq> CHR 0x00) (drop p buf)"

definition exec_args :: "cptr option list \<Rightarrow> carg list" where
  "exec_args argv = map carg_of (takeWhile (\<lambda>a. a \<noteq> None) argv)"

text \<open>
  \<^verbatim>\<open>exec(name, argv)\<close> and what follows it when it comes back: \<open>after\<close> is the rest of
  the function, run on the events so far.
\<close>

definition do_exec ::
  "os_env \<Rightarrow> SimpleCommand \<Rightarrow> event list \<Rightarrow> (event list \<Rightarrow> 'a outcome \<times> event list)
   \<Rightarrow> 'a outcome \<times> event list"
where
  "do_exec env command tr after =
     (let tr1 = tr @ [Exec (carg_of (sc_name command)) (exec_args (sc_argv command))]
      in if exec_fails env (length tr) then after tr1 else (Replaced, tr1))"

text \<open>
  The child of \<^verbatim>\<open>runSimpleCommand\<close> after its two redirections: \<^verbatim>\<open>exec\<close>, and when
  that comes back the message and \<^verbatim>\<open>exit(1)\<close>.
\<close>

definition exec_or_exit :: "os_env \<Rightarrow> SimpleCommand \<Rightarrow> event list \<Rightarrow> int outcome \<times> event list" where
  "exec_or_exit env command tr =
     do_exec env command tr
       (\<lambda>tr1. (Exits 1, tr1 @ [Diag (ErrorU ''Command not found!\<newline>''), Exit 1]))"

text \<open>
  The block \<^verbatim>\<open>if (cmd->redirects[1].type == REDIRECT_OUTPUT) { ... }\<close> of
  \<^verbatim>\<open>runSimpleCommand\<close>, followed by the rest of the child.
\<close>

definition redirect_output :: "os_env \<Rightarrow> SimpleCommand \<Rightarrow> event list \<Rightarrow> int outcome \<times> event list" where
  "redirect_output env command tr =
     (if rtype (sc_redirects command ! 1) = REDIRECT_OUTPUT
      then
        let fd = sys_ret env (length tr);
            tr1 = tr @ [Open (carg_of (path (sc_redirects command ! 1))) [O_WRONLY, O_CREATE]]
        in if fd < 0
           then (Exits 1, tr1 @ [Diag (ErrorS ''Cannot open file descriptor''), Exit 1])
           else if fd \<noteq> 1
           then exec_or_exit env command (tr1 @ [Close 1, Dup fd, Close fd])
           else exec_or_exit env command tr1
      else exec_or_exit env command tr)"

text \<open>
  The block \<^verbatim>\<open>if (cmd->redirects[0].type == REDIRECT_INPUT) { ... }\<close>, followed by the
  rest of the child.
\<close>

definition redirect_input :: "os_env \<Rightarrow> SimpleCommand \<Rightarrow> event list \<Rightarrow> int outcome \<times> event list" where
  "redirect_input env command tr =
     (if rtype (sc_redirects command ! 0) = REDIRECT_INPUT
      then
        let fd = sys_ret env (length tr);
            tr1 = tr @ [Open (carg_of (path (sc_redirects command ! 0))) [O_RDONLY]]
        in if fd < 0
           then (Exits 1, tr1 @ [Diag (ErrorS ''Cannot open file descriptor''), Exit 1])
           else redirect_output env command (tr1 @ [Close 0, Dup fd, Close fd])
      else redirect_output env command tr)"

text \<open>\<^verbatim>\<open>runSimpleCommand\<close>, in the process that \<^verbatim>\<open>fork\<close> returns \<open>pid\<close> to.\<close>

definition runSimpleCommand :: "os_env \<Rightarrow> SimpleCommand \<Rightarrow> event list \<Rightarrow> int outcome \<times> event list" where
  "runSimpleCommand env command tr =
     (let pid = sys_ret env (length tr);
          tr1 = tr @ [Fork]
      in if pid = 0
         then
           if sc_type command = CMD_EMPTY then (Exits 0, tr1 @ [Exit 0])
           else if sc_type command = CMD_INVALID
           then (Exits 1, tr1 @ [Diag (ErrorU ''Invalid command\<newline>''), Exit 1])
           else redirect_input env command tr1
         else if pid > 0
         then (Returns (sys_status env (length tr1)), tr1 @ [Wait])
         else (Returns (- 1), tr1 @ [Diag (ErrorS ''Fork failed\<newline>'')]))"

text \<open>
  The two loops \<^verbatim>\<open>for (redirectCounter = 0; redirectCounter < 3; redirectCounter++)\<close> of
  \<^verbatim>\<open>runPipelineCommnad\<close>, over the slots of the command: \<open>fd\<close> is \<^verbatim>\<open>fdIn\<close> or \<^verbatim>\<open>fdOut\<close>.
\<close>

fun scan_redirects ::
  "os_env \<Rightarrow> RedirectionType \<Rightarrow> open_flag list \<Rightarrow> Redirection list \<Rightarrow> int \<Rightarrow> event list
   \<Rightarrow> int \<times> event list"
where
  "scan_redirects env ty flags [] fd tr = (fd, tr)"
| "scan_redirects env ty flags (r # rs) fd tr =
     (if rtype r = ty
      then
        if dest_fd r \<ge> 0 then scan_redirects env ty flags rs (dest_fd r) tr
        else scan_redirects env ty flags rs (sys_ret env (length tr))
               (tr @ [Open (carg_of (path r)) flags])
      else scan_redirects env ty flags rs fd tr)"

text \<open>
  The descriptor calls of the child of stage \<open>x\<close> of a pipeline of \<open>numCommands\<close>
  stages, before its \<^verbatim>\<open>exec\<close>; \<open>rd\<close> and \<open>wr\<close> are \<^verbatim>\<open>pipeFD[0]\<close> and \<^verbatim>\<open>pipeFD[1]\<close>.
\<close>

definition stage_wiring ::
  "os_env \<Rightarrow> nat \<Rightarrow> nat \<Rightarrow> int \<Rightarrow> int \<Rightarrow> SimpleCommand \<Rightarrow> event list \<Rightarrow> event list"
where
  "stage_wiring env numCommands x rd wr command tr =
     (if x = 0
      then
        let tr1 = tr @ [Close 1, Dup wr, Close rd, Close wr];
            (fdIn, tr2) = scan_redirects env REDIRECT_INPUT [O_RDONLY]
                            (take 3 (sc_redirects command)) (- 1) tr1
        in if fdIn \<ge> 0 then tr2 @ [Close 0, Dup fdIn, Close fdIn] else tr2
      else if x + 1 = numCommands
      then
        let tr1 = tr @ [Close 0, Dup rd, Close rd, Close wr];
            (fdOut, tr2) = scan_redirects env REDIRECT_OUTPUT [O_WRONLY, O_CREATE]
                             (take 3 (sc_redirects command)) (- 1) tr1
        in if fdOut \<ge> 0 then tr2 @ [Close 1, Dup fdOut, Close fdOut] else tr2
      else tr @ [Close 1, Dup rd, Close 0, Dup wr, Close rd, Close wr])"

text \<open>
  \<^verbatim>\<open>pipeline->commands[x].cmd.simple\<close>, which the child follows: a fault when the
  index is outside the array or the pointer is not one to a member of \<^verbatim>\<open>_simples\<close>.
\<close>

definition stage_command :: "CommandData \<Rightarrow> Pipeline \<Rightarrow> nat \<Rightarrow> fault + SimpleCommand" where
  "stage_command cd pl x =
     (if x < length (pl_commands pl)
      then
        (case cmd_cmd (pl_commands pl ! x) of
           SimplePtr k \<Rightarrow>
             if k < length (simples cd) then Inr (simples cd ! k)
             else Inl (LoadOutOfBounds ''_simples'' k (length (simples cd)))
         | _ \<Rightarrow> Inl (NullPointer ''command''))
      else Inl (LoadOutOfBounds ''pipeline->commands'' x (length (pl_commands pl))))"

text \<open>
  The end of \<^verbatim>\<open>runPipelineCommnad\<close>, after the first loop: the two \<^verbatim>\<open>close\<close>, the loop
  of \<^verbatim>\<open>wait(0)\<close> and \<^verbatim>\<open>return 0\<close>.
\<close>

definition pipeline_finish :: "Pipeline \<Rightarrow> int \<Rightarrow> int \<Rightarrow> event list \<Rightarrow> int outcome \<times> event list" where
  "pipeline_finish pl rd wr tr =
     (Returns 0, tr @ [Close rd, Close wr] @ replicate (pl_len pl) Wait)"

text \<open>
  The first loop of \<^verbatim>\<open>runPipelineCommnad\<close>, from stage \<open>x\<close> on, in one process. Where
  \<^verbatim>\<open>fork\<close> returns 0 the process is the child of stage \<open>x\<close>; when its \<^verbatim>\<open>exec\<close> comes
  back, nothing ends the child: it goes on with the loop at stage \<open>x + 1\<close>, as the C
  code does.
\<close>

function pipeline_stages ::
  "os_env \<Rightarrow> CommandData \<Rightarrow> Pipeline \<Rightarrow> nat \<Rightarrow> int \<Rightarrow> int \<Rightarrow> nat \<Rightarrow> event list
   \<Rightarrow> int outcome \<times> event list"
where
  "pipeline_stages env cd pl numCommands rd wr x tr =
     (if x < numCommands
      then
        let pid = sys_ret env (length tr);
            tr1 = tr @ [Fork]
        in if pid = 0
           then
             (case stage_command cd pl x of
                Inl f \<Rightarrow> (Faults f, tr1)
              | Inr command \<Rightarrow>
                  do_exec env command (stage_wiring env numCommands x rd wr command tr1)
                    (pipeline_stages env cd pl numCommands rd wr (x + 1)))
           else pipeline_stages env cd pl numCommands rd wr (x + 1) tr1
      else pipeline_finish pl rd wr tr)"
  by pat_completeness auto
termination
  by (relation "measure (\<lambda>(env, cd, pl, numCommands, rd, wr, x, tr). numCommands - x)") auto

declare pipeline_stages.simps [simp del]

text \<open>\<^verbatim>\<open>runPipelineCommnad\<close>.\<close>

definition runPipelineCommnad ::
  "os_env \<Rightarrow> CommandData \<Rightarrow> Pipeline \<Rightarrow> event list \<Rightarrow> int outcome \<times> event list"
where
  "runPipelineCommnad env cd pl tr =
     (let (rd, wr) = sys_pipe env (length tr)
      in pipeline_stages env cd pl (pl_len pl) rd wr 0 (tr @ [Pipe]))"

text \<open>
  \<^verbatim>\<open>atoi(cmd->argv[1])\<close>, after the test \<^verbatim>\<open>cmd->argc > 1\<close>.
\<close>

definition atoi_arg1 :: "os_env \<Rightarrow> char list \<Rightarrow> SimpleCommand \<Rightarrow> fault + int" where
  "atoi_arg1 env buf command =
     (case sc_argv command ! 1 of
        None \<Rightarrow> Inl (NullPointer ''cmd->argv[1]'')
      | Some p \<Rightarrow> Inr (lib_atoi env (cstr_at buf p)))"

text \<open>
  The branch \<^verbatim>\<open>command->type == CMD_SIMPLE\<close> of \<^verbatim>\<open>RunCommand\<close>, for the command \<^verbatim>\<open>cmd\<close>
  whose name is the string \<open>nm\<close>. The value of \<^verbatim>\<open>runSimpleCommand\<close> is not used.
\<close>

definition run_simple ::
  "os_env \<Rightarrow> ShellState \<Rightarrow> SimpleCommand \<Rightarrow> string \<Rightarrow> event list
   \<Rightarrow> int outcome \<times> ShellState \<times> event list"
where
  "run_simple env shell command nm tr =
     (let buf = bl_buffer (sh_cmdline shell)
      in if nm = ''quit''
         then
           let shell1 = shell\<lparr>sh_should_run := False\<rparr>
           in if sc_argc command > 1
              then
                (case atoi_arg1 env buf command of
                   Inl f \<Rightarrow> (Faults f, shell1, tr)
                 | Inr n \<Rightarrow> (Returns 0, shell1\<lparr>sh_last_exit_status := n\<rparr>, tr))
              else (Returns 0, shell1, tr)
         else if nm = ''exit''
         then
           if sc_argc command > 1
           then
             (case atoi_arg1 env buf command of
                Inl f \<Rightarrow> (Faults f, shell, tr)
              | Inr n \<Rightarrow> (Exits n, shell, tr @ [Exit n]))
           else (Exits 0, shell, tr @ [Exit 0])
         else if nm = ''cd''
         then
           let dir = (if sc_argc command > 1 then carg_of (sc_argv command ! 1) else Null);
               dir1 = (if dir = Null then Const ''/'' else dir);
               tr1 = tr @ [Chdir dir1]
           in if sys_ret env (length tr) < 0
              then (Returns 0, shell,
                    tr1 @ [Diag (ErrorU ''Directory does not exist or cannot be found!\<newline>'')])
              else (Returns 0, shell, tr1)
         else
           (case runSimpleCommand env command tr of
              (Returns v, tr1) \<Rightarrow> (Returns 0, shell, tr1)
            | (Exits n, tr1) \<Rightarrow> (Exits n, shell, tr1)
            | (Replaced, tr1) \<Rightarrow> (Replaced, shell, tr1)
            | (Faults f, tr1) \<Rightarrow> (Faults f, shell, tr1)))"

text \<open>
  \<^verbatim>\<open>RunCommand\<close>. Reading \<^verbatim>\<open>cmd->name\<close> in \<^verbatim>\<open>strcmp\<close> needs a pointer that is not null.
\<close>

definition RunCommand ::
  "os_env \<Rightarrow> ShellState \<Rightarrow> event list \<Rightarrow> int outcome \<times> ShellState \<times> event list"
where
  "RunCommand env shell tr =
     (let cd = sh_cmd_data shell;
          command = cmd cd
      in if cmd_type command = CMD_EMPTY then (Returns 1, shell, tr)
         else if cmd_type command = CMD_INVALID
         then (Returns (- 1), shell, tr @ [Diag (ErrorU ''invalid command'')])
         else if cmd_type command = CMD_SIMPLE
         then
           (case cmd_cmd command of
              SimplePtr k \<Rightarrow>
                if k < length (simples cd)
                then
                  (case sc_name (simples cd ! k) of
                     None \<Rightarrow> (Faults (NullPointer ''cmd->name''), shell, tr)
                   | Some p \<Rightarrow>
                       run_simple env shell (simples cd ! k)
                         (cstr_at (bl_buffer (sh_cmdline shell)) p) tr)
                else (Faults (LoadOutOfBounds ''_simples'' k (length (simples cd))), shell, tr)
            | _ \<Rightarrow> (Faults (NullPointer ''cmd''), shell, tr))
         else if cmd_type command = CMD_PIPELINE
         then
           (case runPipelineCommnad env cd (pipeline cd) tr of
              (Returns v, tr1) \<Rightarrow> (Returns 0, shell, tr1)
            | (Exits n, tr1) \<Rightarrow> (Exits n, shell, tr1)
            | (Replaced, tr1) \<Rightarrow> (Replaced, shell, tr1)
            | (Faults f, tr1) \<Rightarrow> (Faults f, shell, tr1))
         else (Returns 0, shell, tr))"

text \<open>
  The shell when \<^verbatim>\<open>main\<close> enters its loop: \<^verbatim>\<open>this_shell\<close> is zero but for the four
  members that \<^verbatim>\<open>main\<close> assigns. The two numbers are \<^verbatim>\<open>TSH_MAX_CMD_LINE_LENGTH\<close> and
  \<^verbatim>\<open>TSH_MAX_NUM_TOKENS\<close>.
\<close>

definition initial_shell :: "config \<Rightarrow> nat \<Rightarrow> nat \<Rightarrow> ShellState" where
  "initial_shell cfg line_length num_tokens =
     \<lparr>sh_should_run = True, sh_last_exit_status = 0, sh_prompt = ''tsh> '',
      sh_cmdline = \<lparr>bl_len = 0, bl_buffer = replicate line_length (CHR 0x00)\<rparr>,
      sh_tokens = \<lparr>tl_len = 0,
                   tl_tokens = replicate num_tokens \<lparr>tok_type = TOKEN_INVALID, tok_value = 0\<rparr>\<rparr>,
      sh_name = ''tsh'',
      sh_cmd_data = zero_CommandData (cfg_max_args cfg) (cfg_max_pipeline cfg) (cfg_max_cmds cfg)\<rparr>"

subsection \<open>A small configuration for the examples\<close>

text \<open>
  Limits for the examples: at most 4 arguments, 4 stages, 8 commands, a line buffer
  of 32 characters and 16 tokens of 16 bytes. \<open>shell_after\<close> is the shell after
  \<^verbatim>\<open>GetCommand\<close> has read its first line from the input.
\<close>

definition demo_cfg :: config where
  "demo_cfg = \<lparr>cfg_char_signed = False, cfg_sizeof_tokens = 256, cfg_max_args = 4,
               cfg_max_pipeline = 4, cfg_max_cmds = 8\<rparr>"

definition shell_after :: "string \<Rightarrow> ShellState" where
  "shell_after input = fst (snd (GetCommand demo_cfg (initial_shell demo_cfg 32 16) input []))"

text \<open>
  Answers of the system for the examples: every \<^verbatim>\<open>fork\<close>, \<^verbatim>\<open>open\<close> and \<^verbatim>\<open>chdir\<close>
  returns \<open>r\<close>, \<^verbatim>\<open>pipe\<close> stores the descriptors 3 and 4, \<^verbatim>\<open>wait\<close> stores 0, \<^verbatim>\<open>exec\<close>
  does not come back and \<^verbatim>\<open>atoi\<close> is 0.
\<close>

definition answers :: "int \<Rightarrow> os_env" where
  "answers r = \<lparr>sys_ret = (\<lambda>n. r), sys_pipe = (\<lambda>n. (3, 4)), sys_status = (\<lambda>n. 0),
                exec_fails = (\<lambda>n. False), lib_atoi = (\<lambda>s. 0)\<rparr>"

text \<open>The calls on file descriptors: \<^verbatim>\<open>open\<close>, \<^verbatim>\<open>close\<close> and \<^verbatim>\<open>dup\<close>.\<close>

fun fd_call :: "event \<Rightarrow> bool" where
  "fd_call (Open a fl) = True"
| "fd_call (Close fd) = True"
| "fd_call (Dup fd) = True"
| "fd_call e = False"

subsection \<open>Predicates used in the proofs\<close>

text \<open>The two messages that the second loop of \<^verbatim>\<open>ParseSimpleCommand\<close> can print.\<close>

definition redirect_msgs :: "string set" where
  "redirect_msgs = {''Missing redirection destination'', ''Syntax error - unexpected token type''}"

text \<open>
  A redirection slot is in order when it names its own descriptor, has no destination
  descriptor, and has a path only when it has a type.
\<close>

definition slot_ok :: "int \<Rightarrow> Redirection \<Rightarrow> bool" where
  "slot_ok i r \<longleftrightarrow>
     source_fd r = i \<and> dest_fd r < 0 \<and> (rtype r = REDIRECT_NONE \<longrightarrow> path r = None)"

definition slots_ok :: "Redirection list \<Rightarrow> bool" where
  "slots_ok rs \<longleftrightarrow>
     length rs = 3 \<and> slot_ok 0 (rs ! 0) \<and> slot_ok 1 (rs ! 1) \<and> slot_ok 2 (rs ! 2)"

section \<open>Properties of the parser\<close>

subsection \<open>The loops of \<^verbatim>\<open>ParseSimpleCommand\<close>\<close>

lemma sc_flag_set_redirect [simp]: "sc_flag (set_redirect fd src ty s) = sc_flag s"
  by (simp add: set_redirect_def)

lemma sc_flag_set_redirect_path [simp]: "sc_flag (set_redirect_path fd v s) = sc_flag s"
  by (simp add: set_redirect_path_def)

lemma sc_flag_or_flag [simp]: "sc_flag (or_flag f s) = sc_flag s OR f"
  by (simp add: or_flag_def)

lemma and_or_mask: "(f::32 word) AND m = 0 \<Longrightarrow> (x OR f) AND m = x AND m"
  by (simp add: bit.conj_disj_distrib2)

lemma redirect_loop_rest:
  "redirect_loop p simple ds = (False, p', simple', ds') \<Longrightarrow> p' = []"
  by (induction p simple ds rule: redirect_loop.induct)
     (auto simp: Let_def split: if_splits list.splits)

lemma redirect_loop_flag_mask:
  "redirect_loop p simple ds = (r, p', simple', ds') \<Longrightarrow>
   sc_flag simple' AND 0x0A = sc_flag simple AND 0x0A"
  by (induction p simple ds arbitrary: r p' simple' ds' rule: redirect_loop.induct)
     (auto simp: Let_def and_or_mask CMD_MISSING_REDIRECTION_DESTINATION_def
        CMD_BACKGROUND_MODE_def CMD_SYNTAX_ERROR_def split: if_splits list.splits)

lemma get_arguments_bound:
  "get_arguments m toks i argv = (p, j, argv') \<Longrightarrow> i \<le> m \<Longrightarrow> j \<le> m"
  by (induction m toks i argv rule: get_arguments.induct) (auto split: if_splits)

lemma get_arguments_words:
  "list_all (\<lambda>t. tok_type t = TOKEN_WORD) ws \<Longrightarrow> i \<le> m \<Longrightarrow>
   fst (get_arguments m ws i argv) = drop (m - i) ws \<and>
   fst (snd (get_arguments m ws i argv)) = min m (i + length ws)"
proof (induction m ws i argv rule: get_arguments.induct)
  case (1 max_args i argv)
  then show ?case by simp
next
  case (2 max_args p ps i argv)
  show ?case
  proof (cases "i < max_args")
    case True
    then have "max_args - i = Suc (max_args - (i + 1))" by simp
    with 2 True show ?thesis by simp
  next
    case False
    with 2 show ?thesis by simp
  qed
qed

lemma redirect_loop_words:
  "list_all (\<lambda>t. tok_type t = TOKEN_WORD) ws \<Longrightarrow>
   fst (redirect_loop ws s ds) = False \<and>
   sc_flag (fst (snd (snd (redirect_loop ws s ds)))) =
     (if ws = [] then sc_flag s else sc_flag s OR CMD_SYNTAX_ERROR)"
  by (induction ws arbitrary: s ds) (simp_all add: or.assoc)

lemma length_get_arguments:
  "length (snd (snd (get_arguments m toks i argv))) = length argv"
  by (induction m toks i argv rule: get_arguments.induct) auto

lemma get_arguments_mono:
  "i \<le> fst (snd (get_arguments m toks i argv))"
proof (induction m toks i argv rule: get_arguments.induct)
  case (1 max_args i argv)
  then show ?case by simp
next
  case (2 max_args p ps i argv)
  then show ?case by (auto simp: Suc_leD)
qed

lemma get_arguments_first:
  assumes "tok_type t = TOKEN_WORD" "0 < m"
  shows "0 < fst (snd (get_arguments m (t # ts) 0 argv))"
  using assms get_arguments_mono [of 1 m ts "argv[0 := Some (tok_value t)]"] by simp

lemma sc_argv_get_command_path [simp]:
  "sc_argv (get_command_path toks s) = sc_argv s"
  by (simp add: get_command_path_def split: list.splits)

lemma redirect_loop_invariant:
  assumes run: "redirect_loop p s ds = (r, p', s', ds')"
    and P: "P s ds"
    and flag: "\<And>s ds f. P s ds \<Longrightarrow> P (or_flag f s) ds"
    and msg: "\<And>s ds m. P s ds \<Longrightarrow> m \<in> redirect_msgs \<Longrightarrow> P s (ds @ [ErrorU m])"
    and redir: "\<And>s ds fd ty. P s ds \<Longrightarrow> fd < 2 \<Longrightarrow> ty \<noteq> REDIRECT_NONE \<Longrightarrow>
                  P (set_redirect fd (int fd) ty s) ds"
    and dest: "\<And>s ds fd ty v. P s ds \<Longrightarrow> fd < 2 \<Longrightarrow> ty \<noteq> REDIRECT_NONE \<Longrightarrow>
                  P (set_redirect_path fd v (set_redirect fd (int fd) ty s)) ds"
  shows "P s' ds'"
  using run P
proof (induction p s ds arbitrary: r p' s' ds' rule: redirect_loop.induct)
  case (1 simple ds)
  then show ?case by simp
next
  case (2 p ps simple ds)
  let ?redir = "tok_type p = TOKEN_REDIRECT_INPUT \<or> tok_type p = TOKEN_REDIRECT_OUTPUT
         \<or> tok_type p = TOKEN_REDIRECT_OUTPUT_APPEND"
  show ?case
  proof (cases ?redir)
    case True
    define fd :: nat where "fd = (if tok_type p = TOKEN_REDIRECT_INPUT then 0 else 1)"
    define simple1 where "simple1 =
              (if tok_type p = TOKEN_REDIRECT_INPUT then set_redirect 0 0 REDIRECT_INPUT simple
               else if tok_type p = TOKEN_REDIRECT_OUTPUT then set_redirect 1 1 REDIRECT_OUTPUT simple
               else set_redirect 1 1 REDIRECT_APPEND simple)"
    define ty where "ty =
              (if tok_type p = TOKEN_REDIRECT_INPUT then REDIRECT_INPUT
               else if tok_type p = TOKEN_REDIRECT_OUTPUT then REDIRECT_OUTPUT
               else REDIRECT_APPEND)"
    have ty: "ty \<noteq> REDIRECT_NONE" "simple1 = set_redirect fd (int fd) ty simple"
      by (simp_all add: simple1_def fd_def ty_def)
    have fd: "fd < 2" by (simp add: fd_def)
    have P1: "P simple1 ds" using redir [OF "2.prems"(2) fd ty(1)] ty(2) by simp
    have P2: "P (set_redirect_path fd v simple1) ds" for v
      using dest [OF "2.prems"(2) fd ty(1)] ty(2) by simp
    have miss: "P (or_flag CMD_MISSING_REDIRECTION_DESTINATION simple1)
                  (ds @ [ErrorU ''Missing redirection destination''])"
      by (rule msg [OF flag [OF P1]]) (simp add: redirect_msgs_def)
    show ?thesis
    proof (cases ps)
      case Nil
      then have "s' = or_flag CMD_MISSING_REDIRECTION_DESTINATION simple1
                 \<and> ds' = ds @ [ErrorU ''Missing redirection destination'']"
        using "2.prems"(1) True by (simp add: Let_def simple1_def)
      then show ?thesis using miss by simp
    next
      case (Cons q qs)
      show ?thesis
      proof (cases "tok_type q = TOKEN_WORD")
        case w: True
        have "redirect_loop qs (set_redirect_path fd (tok_value q) simple1) ds = (r, p', s', ds')"
          using "2.prems"(1) True Cons w by (simp add: Let_def simple1_def fd_def)
        then show ?thesis
          using "2.IH"(1) [OF True fd_def simple1_def Cons w _ P2] by simp
      next
        case False
        then have "s' = or_flag CMD_MISSING_REDIRECTION_DESTINATION simple1
                 \<and> ds' = ds @ [ErrorU ''Missing redirection destination'']"
          using "2.prems"(1) True Cons by (simp add: Let_def simple1_def)
        then show ?thesis using miss by simp
      qed
    qed
  next
    case False
    show ?thesis
    proof (cases "tok_type p = TOKEN_BACKGROUND")
      case bg: True
      have "redirect_loop ps (or_flag CMD_BACKGROUND_MODE simple) ds = (r, p', s', ds')"
        using "2.prems"(1) False bg by simp
      then show ?thesis
        using "2.IH"(2) [OF False bg _ flag [OF "2.prems"(2)]] by simp
    next
      case nbg: False
      have "redirect_loop ps (or_flag CMD_SYNTAX_ERROR simple)
              (ds @ [ErrorU ''Syntax error - unexpected token type'']) = (r, p', s', ds')"
        using "2.prems"(1) False nbg by simp
      moreover have "P (or_flag CMD_SYNTAX_ERROR simple)
              (ds @ [ErrorU ''Syntax error - unexpected token type''])"
        by (rule msg [OF flag [OF "2.prems"(2)]]) (simp add: redirect_msgs_def)
      ultimately show ?thesis
        using "2.IH"(3) [OF False nbg] by simp
    qed
  qed
qed

lemma slots_ok_init: "slots_ok [init_redirect 0, init_redirect 1, init_redirect 2]"
  by (simp add: slots_ok_def slot_ok_def init_redirect_def)

lemma slots_ok_set_redirect:
  assumes "slots_ok (sc_redirects s)" "fd < 2" "ty \<noteq> REDIRECT_NONE"
  shows "slots_ok (sc_redirects (set_redirect fd (int fd) ty s))"
proof -
  from assms(2) have "fd = 0 \<or> fd = 1" by auto
  then show ?thesis
    using assms(1,3) by (auto simp: slots_ok_def slot_ok_def set_redirect_def)
qed

lemma slots_ok_set_redirect_path:
  assumes "slots_ok (sc_redirects s)" "fd < 2" "ty \<noteq> REDIRECT_NONE"
  shows "slots_ok (sc_redirects (set_redirect_path fd v (set_redirect fd (int fd) ty s)))"
proof -
  from assms(2) have "fd = 0 \<or> fd = 1" by auto
  then show ?thesis
    using assms(1,3)
    by (auto simp: slots_ok_def slot_ok_def set_redirect_def set_redirect_path_def)
qed

lemma redirect_loop_slots:
  assumes "redirect_loop p s ds = (r, p', s', ds')" "slots_ok (sc_redirects s)"
  shows "slots_ok (sc_redirects s')"
  by (rule redirect_loop_invariant [OF assms(1), where P = "\<lambda>s ds. slots_ok (sc_redirects s)"])
     (simp_all add: assms(2) slots_ok_set_redirect slots_ok_set_redirect_path or_flag_def)

lemma redirect_loop_fields:
  assumes "redirect_loop p s ds = (r, p', s', ds')"
  shows "sc_argc s' = sc_argc s \<and> sc_argv s' = sc_argv s \<and> sc_type s' = sc_type s
   \<and> sc_name s' = sc_name s"
  by (rule redirect_loop_invariant [OF assms, where P = "\<lambda>t ds. sc_argc t = sc_argc s \<and> sc_argv t = sc_argv s \<and> sc_type t = sc_type s
   \<and> sc_name t = sc_name s"])
     (simp_all add: or_flag_def set_redirect_def set_redirect_path_def)

lemma redirect_loop_diags:
  assumes "redirect_loop p s ds = (r, p', s', ds')"
  shows "set ds' \<subseteq> set ds \<union> ErrorU ` redirect_msgs"
  by (rule redirect_loop_invariant [OF assms, where P = "\<lambda>t es. set es \<subseteq> set ds \<union> ErrorU ` redirect_msgs"])
     auto

subsection \<open>\<^verbatim>\<open>ParseSimpleCommand\<close> as a whole\<close>

lemma ParseSimpleCommand_eq:
  assumes ga: "get_arguments max_args toks 0 (sc_argv simple0) = (p, i, argv)"
    and rl: "redirect_loop p
        ((get_command_path toks (simple0\<lparr>sc_type := CMD_EMPTY\<rparr>))
           \<lparr>sc_argv := argv[i := None], sc_argc := i,
            sc_redirects := [init_redirect 0, init_redirect 1, init_redirect 2]\<rparr>) []
        = (r, p', s4, ds)"
  shows "ParseSimpleCommand max_args toks simple0 = (s4, ds)"
proof -
  have i: "\<not> max_args < i" using ga get_arguments_bound by fastforce
  have r: "r \<or> p' = []" using rl redirect_loop_rest by (cases r) auto
  have ga': "get_arguments max_args toks 0 (sc_argv (simple0\<lparr>sc_type := CMD_EMPTY\<rparr>)) = (p, i, argv)"
    using ga by simp
  have "ParseSimpleCommand max_args toks simple0 =
          (if r then (s4, ds)
           else if p' \<noteq> []
           then (or_flag (CMD_ARGUMENT_AFTER_REDIRECT OR CMD_SYNTAX_ERROR) s4,
                 ds @ [ErrorU ''Syntax error - argument after redirection''])
           else (s4, ds))"
    unfolding ParseSimpleCommand_def Let_def
    by (simp only: sc_argv_get_command_path ga' prod.case i if_False rl)
  then show ?thesis
    using r by auto
qed

lemma ParseSimpleCommand_diags:
  "set (snd (ParseSimpleCommand max_args toks simple0)) \<subseteq> ErrorU ` redirect_msgs"
proof -
  obtain p i argv where ga: "get_arguments max_args toks 0 (sc_argv simple0) = (p, i, argv)"
    by (metis prod_cases3)
  obtain r p' s4 ds where rl: "redirect_loop p
        ((get_command_path toks (simple0\<lparr>sc_type := CMD_EMPTY\<rparr>))
           \<lparr>sc_argv := argv[i := None], sc_argc := i,
            sc_redirects := [init_redirect 0, init_redirect 1, init_redirect 2]\<rparr>) []
        = (r, p', s4, ds)"
    by (metis prod_cases4)
  show ?thesis
    using redirect_loop_diags [OF rl] by (simp add: ParseSimpleCommand_eq [OF ga rl])
qed

lemma ParseSimpleCommand_fst:
  assumes ga: "get_arguments max_args toks 0 (sc_argv simple0) = (p, i, argv)"
  shows "fst (ParseSimpleCommand max_args toks simple0) =
     fst (snd (snd (redirect_loop p
        ((get_command_path toks (simple0\<lparr>sc_type := CMD_EMPTY\<rparr>))
           \<lparr>sc_argv := argv[i := None], sc_argc := i,
            sc_redirects := [init_redirect 0, init_redirect 1, init_redirect 2]\<rparr>) [])))"
proof -
  obtain r p' s4 ds where rl: "redirect_loop p
        ((get_command_path toks (simple0\<lparr>sc_type := CMD_EMPTY\<rparr>))
           \<lparr>sc_argv := argv[i := None], sc_argc := i,
            sc_redirects := [init_redirect 0, init_redirect 1, init_redirect 2]\<rparr>) []
        = (r, p', s4, ds)"
    by (metis prod_cases4)
  show ?thesis
    by (simp add: ParseSimpleCommand_eq [OF ga rl] rl)
qed

lemma ParseSimpleCommand_words_flag:
  assumes w: "list_all (\<lambda>t. tok_type t = TOKEN_WORD) ws" and ne: "ws \<noteq> []"
  shows "sc_flag (fst (ParseSimpleCommand m ws simple)) =
           (if length ws \<le> m then 0 else CMD_SYNTAX_ERROR)"
proof -
  obtain p i argv where ga: "get_arguments m ws 0 (sc_argv simple) = (p, i, argv)"
    by (metis prod_cases3)
  have p: "p = drop m ws"
    using get_arguments_words [OF w, of 0 m "sc_argv simple"] ga by simp
  then have wp: "list_all (\<lambda>t. tok_type t = TOKEN_WORD) p"
    using w by (simp add: list_all_iff) (meson in_set_dropD)
  obtain t ts where ws: "ws = t # ts" using ne by (cases ws) auto
  then have t: "tok_type t = TOKEN_WORD" using w by simp
  have f: "sc_flag (get_command_path ws (simple\<lparr>sc_type := CMD_EMPTY\<rparr>)) = 0"
    using t by (simp add: get_command_path_def ws)
  show ?thesis
    unfolding ParseSimpleCommand_fst [OF ga]
    using redirect_loop_words [OF wp] p f
    by simp
qed

lemma ParseSimpleCommand_flag_mask:
  assumes "toks \<noteq> []" "tok_type (hd toks) = TOKEN_WORD"
  shows "sc_flag (fst (ParseSimpleCommand max_args toks simple)) AND 0x0A = 0"
proof -
  obtain p i argv where ga: "get_arguments max_args toks 0 (sc_argv simple) = (p, i, argv)"
    by (metis prod_cases3)
  have f: "sc_flag (get_command_path toks (simple\<lparr>sc_type := CMD_EMPTY\<rparr>)) = 0"
    using assms by (cases toks) (simp_all add: get_command_path_def)
  define s3 where "s3 = (get_command_path toks (simple\<lparr>sc_type := CMD_EMPTY\<rparr>))
           \<lparr>sc_argv := argv[i := None], sc_argc := i,
            sc_redirects := [init_redirect 0, init_redirect 1, init_redirect 2]\<rparr>"
  obtain r p' s4 ds where rl: "redirect_loop p s3 [] = (r, p', s4, ds)"
    by (metis prod_cases4)
  have "sc_flag s4 AND 0x0A = 0"
    using redirect_loop_flag_mask [OF rl] f by (simp add: s3_def)
  then show ?thesis
    unfolding ParseSimpleCommand_fst [OF ga] using rl by (simp add: s3_def)
qed

lemma and_mask_sub:
  assumes "(x::32 word) AND m = 0" and "m AND k = k"
  shows "x AND k = 0"
proof -
  have "x AND k = x AND (m AND k)" using assms(2) by simp
  also have "\<dots> = (x AND m) AND k" by (simp add: and.assoc)
  finally show ?thesis using assms(1) by simp
qed

subsection \<open>The argument limit\<close>

text \<open>
  C2. A command of exactly \<^verbatim>\<open>TSH_MAX_NUM_ARGUMENTS\<close> words gets no flag. The claim goes
  on: with one word more, \<^verbatim>\<open>CMD_TOO_MANY_ARGUMENTS\<close> is set. The code does not do that.
  The first loop stops at \<^verbatim>\<open>i == TSH_MAX_NUM_ARGUMENTS\<close>, so the test
  \<^verbatim>\<open>i > TSH_MAX_NUM_ARGUMENTS\<close> after it never holds; the words beyond the limit reach
  the second loop, which flags each as an unexpected token. The theorem says, for a
  sequence \<open>ws\<close> of at least \<^verbatim>\<open>TSH_MAX_NUM_ARGUMENTS\<close> words: the flag is 0 when there
  are exactly that many and \<^verbatim>\<open>CMD_SYNTAX_ERROR\<close> alone when there are more, and whatever
  tokens follow the words, the bit \<^verbatim>\<open>CMD_TOO_MANY_ARGUMENTS\<close> stays clear.
\<close>

theorem C2_too_many_arguments_never_flagged:
  assumes "0 < max_args"
    and "list_all (\<lambda>t. tok_type t = TOKEN_WORD) ws"
    and "max_args \<le> length ws"
  shows "sc_flag (fst (ParseSimpleCommand max_args ws simple)) =
           (if length ws = max_args then 0 else CMD_SYNTAX_ERROR)
         \<and> sc_flag (fst (ParseSimpleCommand max_args (ws @ rest) simple))
             AND CMD_TOO_MANY_ARGUMENTS = 0"
proof -
  have ne: "ws \<noteq> []" using assms by auto
  then have "tok_type (hd (ws @ rest)) = TOKEN_WORD" "ws @ rest \<noteq> []"
    using assms(2) by (cases ws; simp)+
  then have "sc_flag (fst (ParseSimpleCommand max_args (ws @ rest) simple)) AND 0x0A = 0"
    by (rule ParseSimpleCommand_flag_mask [rotated])
  then have "sc_flag (fst (ParseSimpleCommand max_args (ws @ rest) simple)) AND 0x02 = 0"
    by (rule and_mask_sub) simp
  then show ?thesis
    using ParseSimpleCommand_words_flag [OF assms(2) ne, of max_args simple] assms(3)
    by (auto simp: CMD_TOO_MANY_ARGUMENTS_def)
qed

theorem C2_too_many_arguments_witness:
  "sc_flag (fst (ParseSimpleCommand 2
      [\<lparr>tok_type = TOKEN_WORD, tok_value = 0\<rparr>, \<lparr>tok_type = TOKEN_WORD, tok_value = 2\<rparr>]
      (zero_SimpleCommand 2))) = 0
   \<and> sc_flag (fst (ParseSimpleCommand 2
      [\<lparr>tok_type = TOKEN_WORD, tok_value = 0\<rparr>, \<lparr>tok_type = TOKEN_WORD, tok_value = 2\<rparr>,
       \<lparr>tok_type = TOKEN_WORD, tok_value = 4\<rparr>]
      (zero_SimpleCommand 2))) = CMD_SYNTAX_ERROR
   \<and> sc_flag (fst (ParseSimpleCommand 2
      [\<lparr>tok_type = TOKEN_WORD, tok_value = 0\<rparr>, \<lparr>tok_type = TOKEN_WORD, tok_value = 2\<rparr>,
       \<lparr>tok_type = TOKEN_WORD, tok_value = 4\<rparr>]
      (zero_SimpleCommand 2))) AND CMD_TOO_MANY_ARGUMENTS = 0"
proof -
  let ?w0 = "\<lparr>tok_type = TOKEN_WORD, tok_value = 0\<rparr>"
  let ?w2 = "\<lparr>tok_type = TOKEN_WORD, tok_value = 2\<rparr>"
  let ?w4 = "\<lparr>tok_type = TOKEN_WORD, tok_value = 4\<rparr>"
  have pos: "0 < (2::nat)" by simp
  have two: "list_all (\<lambda>t. tok_type t = TOKEN_WORD) [?w0, ?w2]" "2 \<le> length [?w0, ?w2]"
    by simp_all
  have three: "list_all (\<lambda>t. tok_type t = TOKEN_WORD) [?w0, ?w2, ?w4]"
    "2 \<le> length [?w0, ?w2, ?w4]"
    by simp_all
  show ?thesis
    using C2_too_many_arguments_never_flagged [OF pos two, of "zero_SimpleCommand 2" "[]"]
      C2_too_many_arguments_never_flagged [OF pos three, of "zero_SimpleCommand 2" "[]"]
    by (simp add: CMD_SYNTAX_ERROR_def CMD_TOO_MANY_ARGUMENTS_def)
qed

subsection \<open>A word after a redirection\<close>

text \<open>
  C4. The claim: a word after the redirections (as in \<^verbatim>\<open>a > b c\<close>) sets
  \<^verbatim>\<open>CMD_ARGUMENT_AFTER_REDIRECT\<close> and \<^verbatim>\<open>CMD_SYNTAX_ERROR\<close>. The code sets the second
  only. The loop \<^verbatim>\<open>while (p < tail)\<close> is left with \<^verbatim>\<open>p == tail\<close>, so the test
  \<^verbatim>\<open>p != tail\<close> that would set \<^verbatim>\<open>CMD_ARGUMENT_AFTER_REDIRECT\<close> never holds, and the word
  is flagged inside the loop as an unexpected token. The theorem says that for every
  token sequence that starts with a word the bit \<^verbatim>\<open>CMD_ARGUMENT_AFTER_REDIRECT\<close> is
  clear in the flag of the parsed command; the theorem after it evaluates \<^verbatim>\<open>a > b c\<close>.
\<close>

theorem C4_argument_after_redirect_never_flagged:
  assumes "toks \<noteq> []" and "tok_type (hd toks) = TOKEN_WORD"
  shows "sc_flag (fst (ParseSimpleCommand max_args toks simple))
           AND CMD_ARGUMENT_AFTER_REDIRECT = 0"
proof -
  have "sc_flag (fst (ParseSimpleCommand max_args toks simple)) AND 0x08 = 0"
    by (rule and_mask_sub [OF ParseSimpleCommand_flag_mask [OF assms]]) simp
  then show ?thesis
    by (simp add: CMD_ARGUMENT_AFTER_REDIRECT_def)
qed

theorem C4_argument_after_redirect_witness:
  "sc_flag (fst (ParseSimpleCommand 4
      [\<lparr>tok_type = TOKEN_WORD, tok_value = 0\<rparr>,
       \<lparr>tok_type = TOKEN_REDIRECT_OUTPUT, tok_value = 2\<rparr>,
       \<lparr>tok_type = TOKEN_WORD, tok_value = 4\<rparr>,
       \<lparr>tok_type = TOKEN_WORD, tok_value = 6\<rparr>]
      (zero_SimpleCommand 4))) AND CMD_ARGUMENT_AFTER_REDIRECT = 0
   \<and> sc_flag (fst (ParseSimpleCommand 4
      [\<lparr>tok_type = TOKEN_WORD, tok_value = 0\<rparr>,
       \<lparr>tok_type = TOKEN_REDIRECT_OUTPUT, tok_value = 2\<rparr>,
       \<lparr>tok_type = TOKEN_WORD, tok_value = 4\<rparr>,
       \<lparr>tok_type = TOKEN_WORD, tok_value = 6\<rparr>]
      (zero_SimpleCommand 4))) = CMD_SYNTAX_ERROR"
proof -
  let ?toks = "[\<lparr>tok_type = TOKEN_WORD, tok_value = 0\<rparr>,
       \<lparr>tok_type = TOKEN_REDIRECT_OUTPUT, tok_value = 2\<rparr>,
       \<lparr>tok_type = TOKEN_WORD, tok_value = 4\<rparr>,
       \<lparr>tok_type = TOKEN_WORD, tok_value = 6\<rparr>]"
  have h: "?toks \<noteq> []" "tok_type (hd ?toks) = TOKEN_WORD" by simp_all
  have "sc_flag (fst (ParseSimpleCommand 4 ?toks (zero_SimpleCommand 4))) = CMD_SYNTAX_ERROR"
    by code_simp
  then show ?thesis
    using C4_argument_after_redirect_never_flagged [OF h, of 4 "zero_SimpleCommand 4"]
    by simp
qed

subsection \<open>What a parsed simple command satisfies\<close>

text \<open>
  C8. The claim: every \<^verbatim>\<open>SimpleCommand\<close> of the parser with flag 0 has \<^verbatim>\<open>argc >= 1\<close>,
  \<^verbatim>\<open>argv[argc]\<close> null, \<^verbatim>\<open>source_fd == i\<close> in slot \<open>i\<close>, and in a slot without type no
  path and a negative \<^verbatim>\<open>dest_fd\<close>. This fails for a command that does not start with a
  word (an empty range of tokens, or \<^verbatim>\<open>> out\<close>): its type is \<^verbatim>\<open>CMD_EMPTY\<close>, its flag is
  not assigned and keeps the 0 of the fresh \<^verbatim>\<open>this_shell\<close>, and \<^verbatim>\<open>argc\<close> is 0.
  The theorem is the claim for the commands of type \<^verbatim>\<open>CMD_SIMPLE\<close>, with
  \<^verbatim>\<open>TSH_MAX_NUM_ARGUMENTS\<close> positive and \<^verbatim>\<open>argv\<close> of its declared size.
\<close>

theorem C8_simple_command_invariants:
  assumes "0 < max_args"
    and "length (sc_argv simple0) = max_args + 1"
    and "simple = fst (ParseSimpleCommand max_args toks simple0)"
    and "sc_type simple = CMD_SIMPLE"
    and "sc_flag simple = 0"
  shows "1 \<le> sc_argc simple \<and> sc_argc simple \<le> max_args
       \<and> sc_argv simple ! sc_argc simple = None
       \<and> length (sc_redirects simple) = 3
       \<and> (\<forall>i<3. source_fd (sc_redirects simple ! i) = int i
              \<and> (rtype (sc_redirects simple ! i) = REDIRECT_NONE \<longrightarrow>
                   path (sc_redirects simple ! i) = None
                   \<and> dest_fd (sc_redirects simple ! i) < 0))"
proof -
  obtain p i argv where ga: "get_arguments max_args toks 0 (sc_argv simple0) = (p, i, argv)"
    by (metis prod_cases3)
  define s3 where "s3 = (get_command_path toks (simple0\<lparr>sc_type := CMD_EMPTY\<rparr>))
           \<lparr>sc_argv := argv[i := None], sc_argc := i,
            sc_redirects := [init_redirect 0, init_redirect 1, init_redirect 2]\<rparr>"
  obtain r p' s4 ds where rl: "redirect_loop p s3 [] = (r, p', s4, ds)"
    by (metis prod_cases4)
  have simple: "simple = s4"
    using ParseSimpleCommand_eq [OF ga rl [unfolded s3_def]] assms(3) by simp
  have fields: "sc_argc s4 = i" "sc_argv s4 = argv[i := None]"
      "sc_type s4 = sc_type (get_command_path toks (simple0\<lparr>sc_type := CMD_EMPTY\<rparr>))"
    using redirect_loop_fields [OF rl] by (simp_all add: s3_def)
  have slots: "slots_ok (sc_redirects s4)"
    by (rule redirect_loop_slots [OF rl]) (simp add: s3_def slots_ok_init)
  have i: "i \<le> max_args" using ga get_arguments_bound by blast
  have "length argv = max_args + 1"
    using length_get_arguments [of max_args toks 0 "sc_argv simple0"] ga assms(2) by simp
  then have sentinel: "argv[i := None] ! i = None" using i by simp
  obtain t ts where toks: "toks = t # ts" "tok_type t = TOKEN_WORD"
    using assms(4) fields(3) simple
    by (cases toks) (auto simp: get_command_path_def split: if_splits)
  have "0 < i"
    using get_arguments_first [OF toks(2) assms(1), of ts "sc_argv simple0"] ga toks(1) by simp
  moreover have "source_fd (sc_redirects s4 ! k) = int k
              \<and> (rtype (sc_redirects s4 ! k) = REDIRECT_NONE \<longrightarrow>
                   path (sc_redirects s4 ! k) = None \<and> dest_fd (sc_redirects s4 ! k) < 0)"
    if "k < 3" for k
  proof -
    from that have "k = 0 \<or> k = 1 \<or> k = 2" by auto
    then show ?thesis using slots by (auto simp: slots_ok_def slot_ok_def)
  qed
  ultimately show ?thesis
    using simple fields i sentinel slots by (simp add: slots_ok_def)
qed

theorem C8_simple_command_invariants_witness:
  "sc_type (fst (ParseSimpleCommand 4
      [\<lparr>tok_type = TOKEN_WORD, tok_value = 0\<rparr>,
       \<lparr>tok_type = TOKEN_REDIRECT_INPUT, tok_value = 4\<rparr>,
       \<lparr>tok_type = TOKEN_WORD, tok_value = 6\<rparr>,
       \<lparr>tok_type = TOKEN_REDIRECT_OUTPUT, tok_value = 9\<rparr>,
       \<lparr>tok_type = TOKEN_WORD, tok_value = 11\<rparr>]
      (zero_SimpleCommand 4))) = CMD_SIMPLE
   \<and> 1 \<le> sc_argc (fst (ParseSimpleCommand 4
      [\<lparr>tok_type = TOKEN_WORD, tok_value = 0\<rparr>,
       \<lparr>tok_type = TOKEN_REDIRECT_INPUT, tok_value = 4\<rparr>,
       \<lparr>tok_type = TOKEN_WORD, tok_value = 6\<rparr>,
       \<lparr>tok_type = TOKEN_REDIRECT_OUTPUT, tok_value = 9\<rparr>,
       \<lparr>tok_type = TOKEN_WORD, tok_value = 11\<rparr>]
      (zero_SimpleCommand 4)))
   \<and> length (sc_redirects (fst (ParseSimpleCommand 4
      [\<lparr>tok_type = TOKEN_WORD, tok_value = 0\<rparr>,
       \<lparr>tok_type = TOKEN_REDIRECT_INPUT, tok_value = 4\<rparr>,
       \<lparr>tok_type = TOKEN_WORD, tok_value = 6\<rparr>,
       \<lparr>tok_type = TOKEN_REDIRECT_OUTPUT, tok_value = 9\<rparr>,
       \<lparr>tok_type = TOKEN_WORD, tok_value = 11\<rparr>]
      (zero_SimpleCommand 4)))) = 3"
proof -
  let ?toks = "[\<lparr>tok_type = TOKEN_WORD, tok_value = 0\<rparr>,
       \<lparr>tok_type = TOKEN_REDIRECT_INPUT, tok_value = 4\<rparr>,
       \<lparr>tok_type = TOKEN_WORD, tok_value = 6\<rparr>,
       \<lparr>tok_type = TOKEN_REDIRECT_OUTPUT, tok_value = 9\<rparr>,
       \<lparr>tok_type = TOKEN_WORD, tok_value = 11\<rparr>]"
  let ?s = "fst (ParseSimpleCommand 4 ?toks (zero_SimpleCommand 4))"
  have pos: "0 < (4::nat)" by simp
  have len: "length (sc_argv (zero_SimpleCommand 4)) = 4 + 1"
    by (simp add: zero_SimpleCommand_def)
  have ty: "sc_type ?s = CMD_SIMPLE" by code_simp
  have fl: "sc_flag ?s = 0" by code_simp
  show ?thesis
    using C8_simple_command_invariants [OF pos len refl ty fl] ty by simp
qed

theorem C8_empty_command_counterexample:
  "sc_flag (simples (fst (ParseCommand 4 4 8
      [\<lparr>tok_type = TOKEN_REDIRECT_OUTPUT, tok_value = 0\<rparr>,
       \<lparr>tok_type = TOKEN_WORD, tok_value = 2\<rparr>]
      (zero_CommandData 4 4 8))) ! 0) = 0
   \<and> \<not> 1 \<le> sc_argc (simples (fst (ParseCommand 4 4 8
      [\<lparr>tok_type = TOKEN_REDIRECT_OUTPUT, tok_value = 0\<rparr>,
       \<lparr>tok_type = TOKEN_WORD, tok_value = 2\<rparr>]
      (zero_CommandData 4 4 8))) ! 0)"
  by code_simp

subsection \<open>The flag of a pipeline that is too long\<close>

lemma add_stage_diags:
  "set (snd (add_stage max_args toks cd)) \<subseteq> ErrorU ` redirect_msgs"
proof -
  have "snd (add_stage max_args toks cd) =
          snd (ParseSimpleCommand max_args toks (simples cd ! n_simples cd))"
    unfolding add_stage_def Let_def by (auto simp: init_pipeline_def split: prod.splits)
  then show ?thesis using ParseSimpleCommand_diags by metis
qed

lemma pipeline_loop_diags:
  "pipeline_loop max_args max_pl max_cmds prev cur cd ds = (prev', cd', ds') \<Longrightarrow>
   set ds' \<subseteq> set ds \<union> ErrorU ` redirect_msgs"
proof (induction max_args max_pl max_cmds prev cur cd ds rule: pipeline_loop.induct)
  case (1 max_args max_pl max_cmds prev cur cd ds)
  let ?go = "cur \<noteq> [] \<and> pl_len (pipeline cd) < max_pl \<and> n_simples cd < max_cmds"
  define cur1 where "cur1 = find_next_toke_with_type TOKEN_PIPE prev"
  show ?case
  proof (cases ?go)
    case False
    then have "ds' = ds"
      using "1.prems" by (subst (asm) pipeline_loop.simps) auto
    then show ?thesis by simp
  next
    case True
    show ?thesis
    proof (cases "cur1 \<noteq> []")
      case found: True
      obtain cd1 ds1 where st:
        "add_stage max_args (take (length prev - length cur1) prev) cd = (cd1, ds1)"
        by (metis prod.exhaust)
      have "pipeline_loop max_args max_pl max_cmds (tl cur1) (tl cur1) cd1 (ds @ ds1)
              = (prev', cd', ds')"
        using "1.prems" True found st
        by (subst (asm) pipeline_loop.simps) (simp add: cur1_def Let_def)
      from "1.IH"(1) [OF True cur1_def found refl st [symmetric] this]
      have "set ds' \<subseteq> set (ds @ ds1) \<union> ErrorU ` redirect_msgs" .
      moreover have "set ds1 \<subseteq> ErrorU ` redirect_msgs"
        using add_stage_diags [of max_args "take (length prev - length cur1) prev" cd] st by simp
      ultimately show ?thesis by auto
    next
      case nf: False
      have "pipeline_loop max_args max_pl max_cmds prev cur1 cd ds = (prev', cd', ds')"
        using "1.prems" True nf
        by (subst (asm) pipeline_loop.simps) (simp add: cur1_def Let_def)
      from "1.IH"(2) [OF True cur1_def nf this] show ?thesis .
    qed
  qed
qed

lemma too_long_not_redirect_msg: "ErrorU ''Pipeline too long'' \<notin> ErrorU ` redirect_msgs"
  by (simp add: redirect_msgs_def image_iff)

lemma or_0f_bits:
  "(x OR (0x0f::32 word)) AND 0x01 \<noteq> 0" "(x OR (0x0f::32 word)) AND 0x02 \<noteq> 0"
  "(x OR (0x0f::32 word)) AND 0x04 \<noteq> 0" "(x OR (0x0f::32 word)) AND 0x08 \<noteq> 0"
  by (simp_all add: bit.conj_disj_distrib2 or_eq_0_iff)

lemma or_or_0f_bits:
  "(y OR (x OR (0x0f::32 word))) AND 0x01 \<noteq> 0" "(y OR (x OR (0x0f::32 word))) AND 0x02 \<noteq> 0"
  "(y OR (x OR (0x0f::32 word))) AND 0x04 \<noteq> 0" "(y OR (x OR (0x0f::32 word))) AND 0x08 \<noteq> 0"
  using or_0f_bits [of "y OR x"] by (simp_all add: or.assoc)

text \<open>
  C10. \<^verbatim>\<open>CMD_PIPELINE_TOO_LONG\<close> is \<^verbatim>\<open>0x0f\<close>, the union of the four lowest flags. When
  \<^verbatim>\<open>ParsePipeline\<close> takes the branch that sets it (the only one that prints
  \<^verbatim>\<open>Pipeline too long\<close>), the flag of the pipeline and the flag of the top command
  both test positive for \<^verbatim>\<open>CMD_SYNTAX_ERROR\<close>, \<^verbatim>\<open>CMD_TOO_MANY_ARGUMENTS\<close>,
  \<^verbatim>\<open>CMD_MISSING_REDIRECTION_DESTINATION\<close> and \<^verbatim>\<open>CMD_ARGUMENT_AFTER_REDIRECT\<close>.
\<close>

theorem C10_pipeline_too_long_overlaps:
  assumes run: "ParsePipeline max_args max_pl max_cmds toks cd0 = (cd, ds)"
    and msg: "ErrorU ''Pipeline too long'' \<in> set ds"
  shows "pl_flag (pipeline cd) AND CMD_SYNTAX_ERROR \<noteq> 0
       \<and> pl_flag (pipeline cd) AND CMD_TOO_MANY_ARGUMENTS \<noteq> 0
       \<and> pl_flag (pipeline cd) AND CMD_MISSING_REDIRECTION_DESTINATION \<noteq> 0
       \<and> pl_flag (pipeline cd) AND CMD_ARGUMENT_AFTER_REDIRECT \<noteq> 0
       \<and> cmd_flag (cmd cd) AND CMD_SYNTAX_ERROR \<noteq> 0
       \<and> cmd_flag (cmd cd) AND CMD_TOO_MANY_ARGUMENTS \<noteq> 0
       \<and> cmd_flag (cmd cd) AND CMD_MISSING_REDIRECTION_DESTINATION \<noteq> 0
       \<and> cmd_flag (cmd cd) AND CMD_ARGUMENT_AFTER_REDIRECT \<noteq> 0
       \<and> CMD_PIPELINE_TOO_LONG =
           CMD_SYNTAX_ERROR OR CMD_TOO_MANY_ARGUMENTS
           OR CMD_MISSING_REDIRECTION_DESTINATION OR CMD_ARGUMENT_AFTER_REDIRECT"
proof -
  obtain prev cd1 ds1 where lp:
    "pipeline_loop max_args max_pl max_cmds toks toks cd0 [] = (prev, cd1, ds1)"
    by (metis prod_cases3)
  have ds1: "ErrorU ''Pipeline too long'' \<notin> set ds1"
    using pipeline_loop_diags [OF lp] too_long_not_redirect_msg by auto
  define k where "k = n_simples cd1"
  define cd2 where "cd2 = cd1\<lparr>n_simples := k + 1\<rparr>"
  obtain simple ds2 where ps: "ParseSimpleCommand max_args prev (simples cd2 ! k) = (simple, ds2)"
    by (metis prod.exhaust)
  have ds2: "ErrorU ''Pipeline too long'' \<notin> set ds2"
    using ParseSimpleCommand_diags [of max_args prev "simples cd2 ! k"] ps
      too_long_not_redirect_msg by auto
  define cd3 where "cd3 = cd2\<lparr>simples := (simples cd2)[k := simple]\<rparr>"
  define cd4 where "cd4 = (if pl_len (pipeline cd3) = 0
                      then cd3\<lparr>cmd := set_command cd3 (cmd cd3) CMD_SIMPLE (SimplePtr k)\<rparr>
                      else cd3)"
  define cd5 where "cd5 =
     (let pl = pipeline cd4;
          cd' = cd4\<lparr>pipeline := pl\<lparr>pl_commands := (pl_commands pl)
                  [pl_len pl := set_command cd4 (pl_commands pl ! pl_len pl) CMD_SIMPLE (SimplePtr k)]\<rparr>\<rparr>
      in cd'\<lparr>pipeline := (pipeline cd')\<lparr>pl_len := pl_len (pipeline cd') + 1\<rparr>\<rparr>)"
  have "ParsePipeline max_args max_pl max_cmds toks cd0 =
          (if n_simples cd1 \<ge> max_cmds
           then (or_pipeline_flag CMD_TOO_MANY_COMMANDS cd1, ds1 @ [ErrorU ''Too many commands''])
           else if pl_len (pipeline cd4) \<ge> max_pl
           then (or_pipeline_flag CMD_PIPELINE_TOO_LONG cd4,
                 ds1 @ ds2 @ [ErrorU ''Pipeline too long''])
           else if pl_len (pipeline cd4) > 0 then (cd5, ds1 @ ds2)
           else (cd4, ds1 @ ds2))"
    unfolding ParsePipeline_def cd5_def cd4_def cd3_def cd2_def k_def Let_def
    by (simp only: lp prod.case ps [unfolded cd2_def k_def])
  then have "cd = or_pipeline_flag CMD_PIPELINE_TOO_LONG cd4"
    using run msg ds1 ds2 by (auto split: if_splits)
  then have "pl_flag (pipeline cd) = pl_flag (pipeline cd4) OR 0x0f"
    and "cmd_flag (cmd cd) = cmd_flag (cmd cd4) OR (pl_flag (pipeline cd4) OR 0x0f)"
    by (simp_all add: or_pipeline_flag_def Let_def CMD_PIPELINE_TOO_LONG_def)
  then show ?thesis
    using or_0f_bits or_or_0f_bits
    by (simp add: CMD_SYNTAX_ERROR_def CMD_TOO_MANY_ARGUMENTS_def
          CMD_MISSING_REDIRECTION_DESTINATION_def CMD_ARGUMENT_AFTER_REDIRECT_def
          CMD_PIPELINE_TOO_LONG_def)
qed


theorem C10_pipeline_too_long_witness:
  "ErrorU ''Pipeline too long'' \<in> set (snd (ParsePipeline 2 2 8
      [\<lparr>tok_type = TOKEN_WORD, tok_value = 0\<rparr>, \<lparr>tok_type = TOKEN_PIPE, tok_value = 2\<rparr>,
       \<lparr>tok_type = TOKEN_WORD, tok_value = 4\<rparr>, \<lparr>tok_type = TOKEN_PIPE, tok_value = 6\<rparr>,
       \<lparr>tok_type = TOKEN_WORD, tok_value = 8\<rparr>]
      (zero_CommandData 2 2 8)))
   \<and> pl_flag (pipeline (fst (ParsePipeline 2 2 8
      [\<lparr>tok_type = TOKEN_WORD, tok_value = 0\<rparr>, \<lparr>tok_type = TOKEN_PIPE, tok_value = 2\<rparr>,
       \<lparr>tok_type = TOKEN_WORD, tok_value = 4\<rparr>, \<lparr>tok_type = TOKEN_PIPE, tok_value = 6\<rparr>,
       \<lparr>tok_type = TOKEN_WORD, tok_value = 8\<rparr>]
      (zero_CommandData 2 2 8)))) AND CMD_ARGUMENT_AFTER_REDIRECT \<noteq> 0
   \<and> cmd_flag (cmd (fst (ParsePipeline 2 2 8
      [\<lparr>tok_type = TOKEN_WORD, tok_value = 0\<rparr>, \<lparr>tok_type = TOKEN_PIPE, tok_value = 2\<rparr>,
       \<lparr>tok_type = TOKEN_WORD, tok_value = 4\<rparr>, \<lparr>tok_type = TOKEN_PIPE, tok_value = 6\<rparr>,
       \<lparr>tok_type = TOKEN_WORD, tok_value = 8\<rparr>]
      (zero_CommandData 2 2 8)))) AND CMD_SYNTAX_ERROR \<noteq> 0"
proof -
  let ?r = "ParsePipeline 2 2 8
      [\<lparr>tok_type = TOKEN_WORD, tok_value = 0\<rparr>, \<lparr>tok_type = TOKEN_PIPE, tok_value = 2\<rparr>,
       \<lparr>tok_type = TOKEN_WORD, tok_value = 4\<rparr>, \<lparr>tok_type = TOKEN_PIPE, tok_value = 6\<rparr>,
       \<lparr>tok_type = TOKEN_WORD, tok_value = 8\<rparr>]
      (zero_CommandData 2 2 8)"
  have run: "?r = (fst ?r, snd ?r)" by simp
  have msg: "ErrorU ''Pipeline too long'' \<in> set (snd ?r)" by code_simp
  show ?thesis
    using C10_pipeline_too_long_overlaps [OF run msg] msg by simp
qed

section \<open>Properties of the line buffer\<close>

lemma length_takeWhile_take_le: "length (takeWhile P (take n xs)) \<le> n"
  by (metis length_take length_takeWhile_le min.cobounded2 order_trans)

lemma read_loop_takeWhile:
  "length buffer = p + nleft \<Longrightarrow>
   read_loop cs nleft buffer p input = (nleft', buffer', rest) \<Longrightarrow>
   nleft' + length (takeWhile (\<lambda>c. \<not> stops_line cs c) (take nleft input)) = nleft
   \<and> length buffer' = length buffer
   \<and> take (p + length (takeWhile (\<lambda>c. \<not> stops_line cs c) (take nleft input))) buffer' =
       take p buffer @ takeWhile (\<lambda>c. \<not> stops_line cs c) (take nleft input)"
proof (induction cs nleft buffer p input arbitrary: nleft' buffer' rest rule: read_loop.induct)
  case (1 char_signed nleft buffer p)
  then show ?case by simp
next
  case (2 char_signed nleft buffer p c input)
  show ?case
  proof (cases "nleft > 0 \<and> \<not> stops_line char_signed c")
    case True
    then obtain n where n: "nleft = Suc n" by (cases nleft) auto
    define tw where "tw = takeWhile (\<lambda>c. \<not> stops_line char_signed c) (take n input)"
    have run: "read_loop char_signed n (buffer[p := c]) (p + 1) input = (nleft', buffer', rest)"
      using "2.prems"(2) True n by simp
    have len: "length (buffer[p := c]) = (p + 1) + n" using "2.prems"(1) n by simp
    have IH: "nleft' + length tw = n
      \<and> length buffer' = length (buffer[p := c])
      \<and> take (p + 1 + length tw) buffer' = take (p + 1) (buffer[p := c]) @ tw"
      using "2.IH" [of nleft' buffer' rest] run True n len by (simp add: tw_def)
    have tw': "takeWhile (\<lambda>c. \<not> stops_line char_signed c) (take nleft (c # input)) = c # tw"
      using True n by (simp add: tw_def)
    have "take (p + 1) (buffer[p := c]) = take p buffer @ [c]"
      using "2.prems"(1) n by (simp add: take_Suc_conv_app_nth)
    then have "take (p + length (c # tw)) buffer' = take p buffer @ c # tw"
      using IH by simp
    moreover have "nleft' + length (c # tw) = nleft" using IH n by simp
    moreover have "length buffer' = length buffer" using IH by simp
    ultimately show ?thesis unfolding tw' by blast
  next
    case False
    show ?thesis
    proof (cases nleft)
      case 0
      then show ?thesis using "2.prems" by simp
    next
      case (Suc n)
      then have st: "stops_line char_signed c" using False by simp
      then have tw: "takeWhile (\<lambda>c. \<not> stops_line char_signed c) (take nleft (c # input)) = []"
        using Suc by simp
      have "nleft' = nleft" "buffer' = buffer"
        using "2.prems"(2) Suc st by simp_all
      then show ?thesis unfolding tw by simp
    qed
  qed
qed

text \<open>
  C7. The claim: \<^verbatim>\<open>ReadLine\<close> stores the terminator at index \<^verbatim>\<open>len\<close> inside the buffer,
  also when the input reaches the cap. The code reads up to \<^verbatim>\<open>sizeof(line->buffer)\<close>
  bytes, so at the cap \<^verbatim>\<open>len\<close> equals the size of the array and the store
  \<^verbatim>\<open>line->buffer[line->len] = '\0'\<close> is one past its end. The theorem gives both cases
  for a buffer of \<open>cap\<close> characters: with \<open>cap\<close> bytes copied the store is out of bounds;
  with fewer, \<^verbatim>\<open>len\<close> is their number, the terminator is at index \<^verbatim>\<open>len\<close> and the bytes
  before it are the copied ones (without the newline).
\<close>

theorem C7_terminator_store_out_of_bounds:
  assumes size: "length (bl_buffer line) = cap"
  shows "(length (copied cs cap input) = cap \<longrightarrow>
            ReadLine cs line input = Inl (StoreOutOfBounds ''line->buffer'' cap cap))
       \<and> (length (copied cs cap input) < cap \<longrightarrow>
            (\<exists>line' rest. ReadLine cs line input = Inr (line', rest)
               \<and> bl_len line' = length (copied cs cap input)
               \<and> length (bl_buffer line') = cap
               \<and> bl_buffer line' ! bl_len line' = CHR 0x00
               \<and> take (bl_len line') (bl_buffer line') = copied cs cap input))"
proof -
  define k where "k = length (copied cs cap input)"
  obtain nleft buffer rest where rl:
    "read_loop cs cap (bl_buffer line) 0 input = (nleft, buffer, rest)"
    by (metis prod_cases3)
  from read_loop_takeWhile [OF _ rl] size
  have n: "nleft + k = cap" and len: "length buffer = cap"
    and tk: "take k buffer = copied cs cap input"
    by (simp_all add: k_def copied_def)
  have sk: "cap - nleft = k" using n by simp
  have eq: "ReadLine cs line input =
              (if k < cap then Inr (\<lparr>bl_len = k, bl_buffer = buffer[k := CHR 0x00]\<rparr>, rest)
               else Inl (StoreOutOfBounds ''line->buffer'' k cap))"
    using rl sk size by (simp add: ReadLine_def Let_def)
  have "k = cap \<Longrightarrow> ReadLine cs line input = Inl (StoreOutOfBounds ''line->buffer'' cap cap)"
    using eq by simp
  moreover have "\<exists>line' rest. ReadLine cs line input = Inr (line', rest)
               \<and> bl_len line' = k
               \<and> length (bl_buffer line') = cap
               \<and> bl_buffer line' ! bl_len line' = CHR 0x00
               \<and> take (bl_len line') (bl_buffer line') = copied cs cap input"
    if "k < cap"
    using eq that len tk by simp
  ultimately show ?thesis unfolding k_def by blast
qed

theorem C7_terminator_store_witness:
  "ReadLine False \<lparr>bl_len = 0, bl_buffer = replicate 4 (CHR 0x00)\<rparr> ''abcd''
     = Inl (StoreOutOfBounds ''line->buffer'' 4 4)
   \<and> (\<exists>line' rest.
        ReadLine False \<lparr>bl_len = 0, bl_buffer = replicate 4 (CHR 0x00)\<rparr> [CHR ''a'', CHR ''b'', CHR 0x0A, CHR ''c'']
          = Inr (line', rest)
        \<and> bl_len line' = 2 \<and> bl_buffer line' ! bl_len line' = CHR 0x00)"
proof -
  let ?line = "\<lparr>bl_len = 0, bl_buffer = replicate 4 (CHR 0x00)\<rparr>"
  have size: "length (bl_buffer ?line) = 4" by simp
  have full: "length (copied False 4 ''abcd'') = 4"
    by (simp add: copied_def stops_line_def)
  have part: "length (copied False 4 [CHR ''a'', CHR ''b'', CHR 0x0A, CHR ''c'']) = 2"
    by (simp add: copied_def stops_line_def)
  show ?thesis
    using C7_terminator_store_out_of_bounds [OF size, of False "''abcd''"]
      C7_terminator_store_out_of_bounds [OF size, of False "[CHR ''a'', CHR ''b'', CHR 0x0A, CHR ''c'']"]
      full part
    by (simp del: replicate.simps) blast
qed

section \<open>Properties of the lexer\<close>

subsection \<open>The inner loops on the characters of the line\<close>

lemma seg_Cons:
  "p < tail \<Longrightarrow> tail \<le> length buf \<Longrightarrow> seg buf tail p = buf ! p # seg buf tail (Suc p)"
  by (simp add: seg_def Cons_nth_drop_Suc [symmetric])

lemma seg_Nil: "tail \<le> p \<Longrightarrow> seg buf tail p = []"
  by (simp add: seg_def)

lemma seg_add: "seg buf tail (p + k) = drop k (seg buf tail p)"
  by (simp add: seg_def add.commute)

lemma seg_update: "q < p \<Longrightarrow> seg (buf[q := x]) tail p = seg buf tail p"
  by (simp add: seg_def take_update_swap drop_update_cancel)

lemma length_seg: "tail \<le> length buf \<Longrightarrow> length (seg buf tail p) = tail - p"
  by (simp add: seg_def)

lemma skip_whitespace_seg:
  "p \<le> tail \<Longrightarrow> tail \<le> length buf \<Longrightarrow>
   skip_whitespace buf tail p = p + length (takeWhile (strchr whitespace) (seg buf tail p))"
proof (induction buf tail p rule: skip_whitespace.induct)
  case (1 buf tail p)
  show ?case
  proof (cases "p < tail \<and> strchr whitespace (buf ! p)")
    case True
    then have "skip_whitespace buf tail p = skip_whitespace buf tail (p + 1)"
      by (subst skip_whitespace.simps) simp
    also have "\<dots> = p + 1 + length (takeWhile (strchr whitespace) (seg buf tail (p + 1)))"
      using "1.IH" [OF True] True "1.prems" by simp
    finally show ?thesis
      using True "1.prems" by (simp add: seg_Cons)
  next
    case False
    then have eq: "skip_whitespace buf tail p = p"
      by (subst skip_whitespace.simps) auto
    show ?thesis
    proof (cases "p < tail")
      case True
      then show ?thesis using False "1.prems" eq by (simp add: seg_Cons)
    next
      case False
      then show ?thesis using eq by (simp add: seg_Nil)
    qed
  qed
qed

lemma scan_word_seg:
  "p \<le> tail \<Longrightarrow> tail \<le> length buf \<Longrightarrow>
   scan_word buf tail p = p + length (takeWhile word_char (seg buf tail p))"
proof (induction buf tail p rule: scan_word.induct)
  case (1 buf tail p)
  show ?case
  proof (cases "p < tail \<and> \<not> strchr whitespace (buf ! p) \<and> \<not> strchr symbols (buf ! p)")
    case True
    then have wc: "word_char (buf ! p)" by (simp add: word_char_def)
    from True have "scan_word buf tail p = scan_word buf tail (p + 1)"
      by (subst scan_word.simps) simp
    also have "\<dots> = p + 1 + length (takeWhile word_char (seg buf tail (p + 1)))"
      using "1.IH" [OF True] True "1.prems" by simp
    finally show ?thesis
      using True "1.prems" wc by (simp add: seg_Cons)
  next
    case False
    then have eq: "scan_word buf tail p = p"
      by (subst scan_word.simps) auto
    show ?thesis
    proof (cases "p < tail")
      case True
      then have "\<not> word_char (buf ! p)" using False by (simp add: word_char_def)
      then show ?thesis using True "1.prems" eq by (simp add: seg_Cons)
    next
      case False
      then show ?thesis using eq by (simp add: seg_Nil)
    qed
  qed
qed

lemma seg_after_takeWhile:
  "seg buf tail (p + length (takeWhile P (seg buf tail p))) = dropWhile P (seg buf tail p)"
  by (simp add: seg_add dropWhile_eq_drop)

lemma spec_token_kinds_skip:
  "spec_token_kinds s = spec_token_kinds (dropWhile (strchr whitespace) s)"
  by (induction s) auto

lemma take_Suc_update:
  "idx < length toks \<Longrightarrow> take (Suc idx) (toks[idx := t]) = take idx toks @ [t]"
  by (simp add: take_Suc_conv_app_nth)


subsection \<open>One pass of the loop adds the tokens of the specification\<close>

lemma put_token_ok:
  "idx < length toks \<Longrightarrow>
   put_token toks idx ty v = Inr (toks[idx := \<lparr>tok_type = ty, tok_value = v\<rparr>])"
  by (simp add: put_token_def)

lemma kinds_put:
  "idx < length toks \<Longrightarrow>
   kinds (Suc idx) (toks[idx := \<lparr>tok_type = ty, tok_value = v\<rparr>]) = kinds idx toks @ [ty]"
  by (simp add: kinds_def take_Suc_update)

lemma nul_class [simp]:
  "\<not> strchr whitespace (CHR 0x00)" "\<not> strchr symbols (CHR 0x00)"
  by (simp_all add: strchr_def whitespace_def symbols_def)

lemma gt_symbol [simp]: "strchr symbols (CHR ''>'')"
  by (simp add: strchr_def symbols_def)

lemma symbol_part_spec:
  assumes p: "p < tail" and tail: "tail < length buf"
    and ds: "seg buf tail (Suc p) = ds"
    and nt: "\<not> strchr symbols (buf ! tail)"
    and d: "\<not> word_char d"
    and room: "idx + length (spec_token_kinds (d # ds)) \<le> length toks"
  shows "\<exists>p' ks toks'.
           symbol_part buf p idx toks d = Inr (p', idx + length ks, toks')
         \<and> spec_token_kinds (d # ds) = ks @ spec_token_kinds (seg buf tail p')
         \<and> p < p' \<and> p' \<le> tail \<and> length toks' = length toks
         \<and> kinds (idx + length ks) toks' = kinds idx toks @ ks"
proof (cases "strchr whitespace d")
  case True
  then have "symbol_part buf p idx toks d = Inr (p + 1, idx + length ([]::TokenType list), toks)"
    by (simp add: symbol_part_def)
  moreover have "spec_token_kinds (d # ds) = [] @ spec_token_kinds (seg buf tail (p + 1))"
    using True ds by simp
  ultimately show ?thesis using p by (intro exI [of _ "p + 1"] exI [of _ "[]"] exI [of _ toks]) simp
next
  case False
  then have sym: "strchr symbols d" using d by (simp add: word_char_def)
  show ?thesis
  proof (cases "d = CHR ''>'' \<and> ds \<noteq> [] \<and> hd ds = CHR ''>''")
    case True
    then have lt: "Suc p < tail"
      using ds length_seg [of tail buf "Suc p"] tail by (cases "Suc p < tail") (auto simp: seg_Nil)
    then have dsC: "ds = buf ! Suc p # seg buf tail (Suc (Suc p))"
      using seg_Cons [of "Suc p" tail buf] tail ds by simp
    then have nx: "buf ! (p + 1) = CHR ''>''" using True by simp
    have tlds: "tl ds = seg buf tail (p + 2)" using dsC by simp
    have idx: "idx < length toks" using room True False sym by simp
    let ?toks = "toks[idx := \<lparr>tok_type = TOKEN_REDIRECT_OUTPUT_APPEND, tok_value = p\<rparr>]"
    have "symbol_part buf p idx toks d =
            Inr (p + 2, idx + length [TOKEN_REDIRECT_OUTPUT_APPEND], ?toks)"
      using True False sym nx put_token_ok [OF idx] by (simp add: symbol_part_def)
    moreover have "spec_token_kinds (d # ds) =
        [TOKEN_REDIRECT_OUTPUT_APPEND] @ spec_token_kinds (seg buf tail (p + 2))"
      using True False sym tlds by simp
    moreover have "kinds (idx + length [TOKEN_REDIRECT_OUTPUT_APPEND]) ?toks
        = kinds idx toks @ [TOKEN_REDIRECT_OUTPUT_APPEND]"
      using kinds_put [OF idx] by simp
    ultimately show ?thesis
      using lt
      by (intro exI [of _ "p + 2"] exI [of _ "[TOKEN_REDIRECT_OUTPUT_APPEND]"] exI [of _ ?toks])
         simp
  next
    case no: False
    have nx: "\<not> (d = CHR ''>'' \<and> buf ! (p + 1) = CHR ''>'')"
    proof (cases "Suc p < tail")
      case True
      then have "ds = buf ! Suc p # seg buf tail (Suc (Suc p))"
        using seg_Cons [of "Suc p" tail buf] tail ds by simp
      then show ?thesis using no by auto
    next
      case False
      then have "Suc p = tail" using p by simp
      then have "buf ! (p + 1) \<noteq> CHR ''>''" using nt by auto
      then show ?thesis by simp
    qed
    have idx: "idx < length toks" using room no False sym by (auto split: if_splits)
    let ?toks = "toks[idx := \<lparr>tok_type = symbol_type d, tok_value = p\<rparr>]"
    have "symbol_part buf p idx toks d = Inr (p + 1, idx + length [symbol_type d], ?toks)"
      using False sym nx put_token_ok [OF idx] by (auto simp: symbol_part_def)
    moreover have "spec_token_kinds (d # ds) =
        [symbol_type d] @ spec_token_kinds (seg buf tail (p + 1))"
      using no False sym ds by auto
    moreover have "kinds (idx + length [symbol_type d]) ?toks = kinds idx toks @ [symbol_type d]"
      using kinds_put [OF idx] by simp
    ultimately show ?thesis
      using p
      by (intro exI [of _ "p + 1"] exI [of _ "[symbol_type d]"] exI [of _ ?toks]) simp
  qed
qed


lemma dropWhile_eq_Cons_not: "dropWhile P xs = c # cs \<Longrightarrow> \<not> P c"
  by (induction xs) (auto split: if_splits)

lemma tokenize_step_spec:
  assumes tail: "tail < length buf" and p: "p \<le> tail"
    and nw: "\<not> strchr whitespace (buf ! tail)" and ns: "\<not> strchr symbols (buf ! tail)"
    and room: "idx + length (spec_token_kinds (seg buf tail p)) \<le> length toks"
  shows "(spec_token_kinds (seg buf tail p) = []
          \<and> (\<exists>p'. tokenize_step tail buf p idx toks = Inr (False, buf, p', idx, toks)))
       \<or> (\<exists>buf' p' ks toks'.
            tokenize_step tail buf p idx toks = Inr (True, buf', p', idx + length ks, toks')
          \<and> spec_token_kinds (seg buf tail p) = ks @ spec_token_kinds (seg buf' tail p')
          \<and> p' \<le> tail \<and> length buf' = length buf
          \<and> \<not> strchr whitespace (buf' ! tail) \<and> \<not> strchr symbols (buf' ! tail)
          \<and> length toks' = length toks
          \<and> kinds (idx + length ks) toks' = kinds idx toks @ ks)"
proof -
  define p1 where "p1 = skip_whitespace buf tail p"
  define s1 where "s1 = dropWhile (strchr whitespace) (seg buf tail p)"
  have tl: "tail \<le> length buf" using tail by simp
  have p1: "p1 = p + length (takeWhile (strchr whitespace) (seg buf tail p))"
    unfolding p1_def by (rule skip_whitespace_seg [OF p tl])
  have s1: "seg buf tail p1 = s1"
    unfolding p1 s1_def by (rule seg_after_takeWhile)
  have spec1: "spec_token_kinds (seg buf tail p) = spec_token_kinds s1"
    unfolding s1_def by (rule spec_token_kinds_skip)
  have "length (takeWhile (strchr whitespace) (seg buf tail p)) \<le> tail - p"
    using length_takeWhile_le [of "strchr whitespace" "seg buf tail p"] length_seg [OF tl, of p]
    by simp
  then have p1le: "p1 \<le> tail" using p1 p by simp
  show ?thesis
  proof (cases s1)
    case Nil
    then have "p1 = tail" using s1 length_seg [OF tl, of p1] p1le by simp
    then have "tokenize_step tail buf p idx toks = Inr (False, buf, p1, idx, toks)"
      by (simp add: tokenize_step_def p1_def [symmetric])
    then show ?thesis using spec1 Nil by auto
  next
    case (Cons c cs)
    then have p1lt: "p1 < tail"
      using s1 p1le by (cases "p1 = tail") (auto simp: seg_Nil)
    have c: "c = buf ! p1" and cs: "cs = seg buf tail (Suc p1)"
      using seg_Cons [OF p1lt tl] s1 Cons by simp_all
    have nwc: "\<not> strchr whitespace c"
      using dropWhile_eq_Cons_not [of "strchr whitespace" "seg buf tail p" c cs] Cons
      by (simp add: s1_def)
    have room1: "idx + length (spec_token_kinds (c # cs)) \<le> length toks"
      using room spec1 Cons by simp
    show ?thesis
    proof (cases "strchr symbols c")
      case True
      then have wp: "word_part tail buf p1 idx toks = Inr (buf, p1, idx, toks, c)"
        by (simp add: word_part_def c)
      have "\<not> word_char c" using True by (simp add: word_char_def)
      from symbol_part_spec [OF p1lt tail cs [symmetric] ns this room1]
      obtain p' ks toks' where sp:
          "symbol_part buf p1 idx toks c = Inr (p', idx + length ks, toks')"
          "spec_token_kinds (c # cs) = ks @ spec_token_kinds (seg buf tail p')"
          "p' \<le> tail" "length toks' = length toks"
          "kinds (idx + length ks) toks' = kinds idx toks @ ks"
        by blast
      have "tokenize_step tail buf p idx toks = Inr (True, buf, p', idx + length ks, toks')"
        using p1lt wp sp(1) by (simp add: tokenize_step_def p1_def [symmetric])
      then show ?thesis
        using sp spec1 Cons nw ns by (intro disjI2 exI [of _ buf] exI [of _ p'] exI [of _ ks] exI [of _ toks']) simp
    next
      case False
      then have wc: "word_char c" using nwc by (simp add: word_char_def)
      define r where "r = dropWhile word_char cs"
      define p2 where "p2 = scan_word buf tail p1"
      have specw: "spec_token_kinds (c # cs) = TOKEN_WORD # spec_token_kinds r"
        using False nwc by (simp add: r_def)
      have idx: "idx < length toks" using room1 specw by simp
      let ?toks1 = "toks[idx := \<lparr>tok_type = TOKEN_WORD, tok_value = p1\<rparr>]"
      let ?buf2 = "buf[p2 := CHR 0x00]"
      have p2: "p2 = p1 + length (takeWhile word_char (seg buf tail p1))"
        unfolding p2_def using scan_word_seg [OF _ tl, of p1] p1le by simp
      have segp2: "seg buf tail p2 = r"
        unfolding p2 using seg_after_takeWhile [of buf tail p1 word_char] s1 Cons wc
        by (simp add: r_def)
      have p2gt: "p1 < p2" using p2 s1 Cons wc by simp
      have "length (takeWhile word_char (seg buf tail p1)) \<le> tail - p1"
        using length_takeWhile_le [of word_char "seg buf tail p1"] length_seg [OF tl, of p1]
        by simp
      then have p2le: "p2 \<le> tail" using p2 p1le by simp
      have wp: "word_part tail buf p1 idx toks = Inr (?buf2, p2, idx + 1, ?toks1, buf ! p2)"
        using False put_token_ok [OF idx]
        by (simp add: word_part_def c [symmetric] Let_def p2_def [symmetric])
      have k1: "kinds (idx + 1) ?toks1 = kinds idx toks @ [TOKEN_WORD]"
        using kinds_put [OF idx] by simp
      show ?thesis
      proof (cases r)
        case Nil
        then have p2t: "p2 = tail" using segp2 length_seg [OF tl, of p2] p2le by simp
        have "symbol_part ?buf2 p2 (idx + 1) ?toks1 (buf ! p2) = Inr (p2, idx + 1, ?toks1)"
          using nw ns p2t by (simp add: symbol_part_def)
        then have "tokenize_step tail buf p idx toks =
            Inr (True, ?buf2, p2, idx + length [TOKEN_WORD], ?toks1)"
          using p1lt wp by (simp add: tokenize_step_def p1_def [symmetric])
        moreover have "spec_token_kinds (seg buf tail p) =
            [TOKEN_WORD] @ spec_token_kinds (seg ?buf2 tail p2)"
          using spec1 Cons specw Nil p2t by (simp add: seg_Nil)
        moreover have "?buf2 ! tail = CHR 0x00" using p2t tail by simp
        ultimately show ?thesis
          using p2le k1
          by (intro disjI2 exI [of _ ?buf2] exI [of _ p2] exI [of _ "[TOKEN_WORD]"]
                exI [of _ ?toks1]) simp
      next
        case (Cons d ds)
        then have p2lt: "p2 < tail"
          using segp2 p2le by (cases "p2 = tail") (auto simp: seg_Nil)
        have d: "d = buf ! p2" and ds: "ds = seg buf tail (Suc p2)"
          using seg_Cons [OF p2lt tl] segp2 Cons by simp_all
        have nwd: "\<not> word_char d"
          using dropWhile_eq_Cons_not [of word_char cs d ds] Cons by (simp add: r_def)
        have ds2: "seg ?buf2 tail (Suc p2) = ds"
          using ds by (simp add: seg_update)
        have tail2: "tail < length ?buf2" using tail by simp
        have bt: "?buf2 ! tail = buf ! tail" using p2lt by simp
        have ns2: "\<not> strchr symbols (?buf2 ! tail)" using ns bt by simp
        have room2: "(idx + 1) + length (spec_token_kinds (d # ds)) \<le> length ?toks1"
          using room1 specw Cons by simp
        from symbol_part_spec [OF p2lt tail2 ds2 ns2 nwd room2]
        obtain p' ks toks' where sp:
            "symbol_part ?buf2 p2 (idx + 1) ?toks1 d = Inr (p', idx + 1 + length ks, toks')"
            "spec_token_kinds (d # ds) = ks @ spec_token_kinds (seg ?buf2 tail p')"
            "p' \<le> tail" "length toks' = length ?toks1"
            "kinds (idx + 1 + length ks) toks' = kinds (idx + 1) ?toks1 @ ks"
          by blast
        have "tokenize_step tail buf p idx toks =
            Inr (True, ?buf2, p', idx + length (TOKEN_WORD # ks), toks')"
          using p1lt wp sp(1) d by (simp add: tokenize_step_def p1_def [symmetric])
        moreover have "spec_token_kinds (seg buf tail p) =
            (TOKEN_WORD # ks) @ spec_token_kinds (seg ?buf2 tail p')"
          using spec1 \<open>s1 = c # cs\<close> specw Cons sp(2) by simp
        moreover have "kinds (idx + length (TOKEN_WORD # ks)) toks' = kinds idx toks @ TOKEN_WORD # ks"
          using sp(5) k1 by simp
        ultimately show ?thesis
          using sp(3,4) nw ns bt
          by (intro disjI2 exI [of _ ?buf2] exI [of _ p'] exI [of _ "TOKEN_WORD # ks"]
                exI [of _ toks']) simp
      qed
    qed
  qed
qed


subsection \<open>The loop\<close>

lemma tokenize_loop_spec:
  assumes "tail < length buf" "p \<le> tail"
    and "\<not> strchr whitespace (buf ! tail)" "\<not> strchr symbols (buf ! tail)"
    and "length toks \<le> cap"
    and "idx + length (spec_token_kinds (seg buf tail p)) \<le> length toks"
  shows "\<exists>buf' toks'.
           tokenize_loop cap tail buf p idx toks =
             Inr (buf', idx + length (spec_token_kinds (seg buf tail p)), toks')
         \<and> length toks' = length toks
         \<and> kinds (idx + length (spec_token_kinds (seg buf tail p))) toks' =
             kinds idx toks @ spec_token_kinds (seg buf tail p)"
  using assms
proof (induction cap tail buf p idx toks rule: tokenize_loop.induct)
  case (1 cap tail buf p idx toks)
  show ?case
  proof (cases "p < tail \<and> idx < cap")
    case False
    then have res: "tokenize_loop cap tail buf p idx toks = Inr (buf, idx, toks)"
      by (subst tokenize_loop.simps) auto
    have "spec_token_kinds (seg buf tail p) = []"
    proof (cases "p < tail")
      case True
      then have "length toks \<le> idx" using False "1.prems"(5) by simp
      then have "length (spec_token_kinds (seg buf tail p)) = 0"
        using "1.prems"(6) by arith
      then show ?thesis by simp
    next
      case False
      then show ?thesis by (simp add: seg_Nil)
    qed
    then show ?thesis using res by simp
  next
    case True
    from tokenize_step_spec [OF "1.prems"(1-4,6)]
    show ?thesis
    proof (elim disjE conjE exE)
      fix p'
      assume e: "spec_token_kinds (seg buf tail p) = []"
        and st: "tokenize_step tail buf p idx toks = Inr (False, buf, p', idx, toks)"
      have "tokenize_loop cap tail buf p idx toks = Inr (buf, idx, toks)"
        using True st by (subst tokenize_loop.simps) simp
      then show ?thesis using e by simp
    next
      fix buf' p' ks toks'
      assume st: "tokenize_step tail buf p idx toks = Inr (True, buf', p', idx + length ks, toks')"
        and sp: "spec_token_kinds (seg buf tail p) = ks @ spec_token_kinds (seg buf' tail p')"
        and p': "p' \<le> tail" and lb: "length buf' = length buf"
        and nw: "\<not> strchr whitespace (buf' ! tail)" and ns: "\<not> strchr symbols (buf' ! tail)"
        and lt: "length toks' = length toks"
        and k: "kinds (idx + length ks) toks' = kinds idx toks @ ks"
      have eq: "tokenize_loop cap tail buf p idx toks =
                  tokenize_loop cap tail buf' p' (idx + length ks) toks'"
        using True st by (subst tokenize_loop.simps) simp
      have room: "idx + length ks + length (spec_token_kinds (seg buf' tail p')) \<le> length toks'"
        using "1.prems"(6) sp lt by simp
      have t': "tail < length buf'" using "1.prems"(1) lb by simp
      have c': "length toks' \<le> cap" using "1.prems"(5) lt by simp
      from "1.IH" [OF True st refl refl refl refl _ t' p' nw ns c' room]
      obtain buf'' toks'' where
        "tokenize_loop cap tail buf' p' (idx + length ks) toks' =
           Inr (buf'', idx + length ks + length (spec_token_kinds (seg buf' tail p')), toks'')"
        "length toks'' = length toks'"
        "kinds (idx + length ks + length (spec_token_kinds (seg buf' tail p'))) toks'' =
           kinds (idx + length ks) toks' @ spec_token_kinds (seg buf' tail p')"
        by auto
      then show ?thesis
        using eq sp lt k by (simp add: add.assoc)
    qed
  qed
qed


lemma seg_strlen: "seg buf (strlen buf) 0 = c_string buf"
  by (simp add: seg_def strlen_def c_string_def takeWhile_eq_take [symmetric])

lemma nth_strlen: "strlen buf < length buf \<Longrightarrow> buf ! strlen buf = CHR 0x00"
  using nth_length_takeWhile [of "\<lambda>c. c \<noteq> CHR 0x00" buf] by (simp add: strlen_def)

text \<open>\<^verbatim>\<open>Tokenize\<close> stores into the members of the array and leaves their number alone.\<close>

lemma tokenize_step_length:
  "tokenize_step tail buf p idx toks = Inr (go, buf', p', idx', toks') \<Longrightarrow>
   length toks' = length toks"
  by (auto simp: tokenize_step_def word_part_def symbol_part_def put_token_def Let_def
      split: if_splits sum.splits prod.splits)

lemma tokenize_loop_length:
  "tokenize_loop cap tail buf p idx toks = Inr (buf', idx', toks') \<Longrightarrow>
   length toks' = length toks"
proof (induction cap tail buf p idx toks rule: tokenize_loop.induct)
  case (1 cap tail buf p idx toks)
  show ?case
  proof (cases "p < tail \<and> idx < cap")
    case False
    then show ?thesis
      using "1.prems" by (subst (asm) tokenize_loop.simps) auto
  next
    case True
    then obtain go b1 p1 i1 t1 where
      st: "tokenize_step tail buf p idx toks = Inr (go, b1, p1, i1, t1)"
      using "1.prems"
      by (subst (asm) tokenize_loop.simps) (auto split: sum.splits)
    have l1: "length t1 = length toks" by (rule tokenize_step_length [OF st])
    show ?thesis
    proof (cases go)
      case True
      then have "tokenize_loop cap tail b1 p1 i1 t1 = Inr (buf', idx', toks')"
        using "1.prems" \<open>p < tail \<and> idx < cap\<close> st
        by (subst (asm) tokenize_loop.simps) simp
      from "1.IH" [OF \<open>p < tail \<and> idx < cap\<close> st refl refl refl refl True this]
      show ?thesis using l1 by simp
    next
      case False
      then have "toks' = t1"
        using "1.prems" \<open>p < tail \<and> idx < cap\<close> st
        by (subst (asm) tokenize_loop.simps) simp
      then show ?thesis using l1 by simp
    qed
  qed
qed

lemma Tokenize_length:
  "Tokenize sizeof_tokens line tlist = Inr (line', tlist') \<Longrightarrow>
   length (tl_tokens tlist') = length (tl_tokens tlist)"
  by (auto simp: Tokenize_def Let_def split: if_splits sum.splits dest: tokenize_loop_length)


text \<open>
  C9. The claim: for every input line the lexer emits one \<^verbatim>\<open>RedirOutAppend\<close> token for each
  \<^verbatim>\<open>>>\<close>, one \<^verbatim>\<open>RedirOut\<close> token for a \<^verbatim>\<open>>\<close> that is not followed at once by another
  \<^verbatim>\<open>>\<close>, and tokens of one character for the other symbols. It holds for the lines whose
  tokens fit the array \<^verbatim>\<open>tl->tokens\<close>, and for no other line. The theorem, for a buffer
  that holds its terminator and an array of at most \<^verbatim>\<open>sizeof(tl->tokens)\<close> members:
  when the array has room for the tokens of the line, \<^verbatim>\<open>Tokenize\<close> returns, and the types
  of the tokens it stores are those of \<open>spec_token_kinds\<close> on the characters of the line:
  \<^verbatim>\<open>>\<close> followed at once by \<^verbatim>\<open>>\<close> is one \<^verbatim>\<open>TOKEN_REDIRECT_OUTPUT_APPEND\<close>, pairing from
  the left, a \<^verbatim>\<open>>\<close> that is not the first of such a pair is one
  \<^verbatim>\<open>TOKEN_REDIRECT_OUTPUT\<close> (so \<^verbatim>\<open>>>>\<close> is an append followed by an output
  redirection), and every other symbol is a token of one character; when the line has
  more tokens than the array has members, \<^verbatim>\<open>Tokenize\<close> does not return with these
  tokens. The loop of \<^verbatim>\<open>Tokenize\<close> compares \<^verbatim>\<open>idx\<close> with \<^verbatim>\<open>sizeof(tl->tokens)\<close>, the size
  in bytes, so it does not stop at the last member of the array: in the example that
  follows the theorem, a line of 17 tokens and an array of 16 members, the store of
  token number 16 is past the end of the array.
\<close>

theorem C9_token_kinds:
  assumes nul: "strlen (bl_buffer line) < length (bl_buffer line)"
    and size: "length (tl_tokens tlist) \<le> sizeof_tokens"
  shows "(length (spec_token_kinds (c_string (bl_buffer line))) \<le> length (tl_tokens tlist) \<longrightarrow>
          (\<exists>line' tlist'.
             Tokenize sizeof_tokens line tlist = Inr (line', tlist')
           \<and> tl_len tlist' = length (spec_token_kinds (c_string (bl_buffer line)))
           \<and> map tok_type (take (tl_len tlist') (tl_tokens tlist')) =
               spec_token_kinds (c_string (bl_buffer line))))
       \<and> (length (tl_tokens tlist) < length (spec_token_kinds (c_string (bl_buffer line))) \<longrightarrow>
          \<not> (\<exists>line' tlist'.
             Tokenize sizeof_tokens line tlist = Inr (line', tlist')
           \<and> map tok_type (take (tl_len tlist') (tl_tokens tlist')) =
               spec_token_kinds (c_string (bl_buffer line))))"
proof (intro conjI impI)
  assume room: "length (spec_token_kinds (c_string (bl_buffer line))) \<le> length (tl_tokens tlist)"
  let ?buf = "bl_buffer line"
  let ?tail = "strlen ?buf"
  have z: "?buf ! ?tail = CHR 0x00" by (rule nth_strlen [OF nul])
  have nw: "\<not> strchr whitespace (?buf ! ?tail)" and ns: "\<not> strchr symbols (?buf ! ?tail)"
    by (simp_all add: z)
  have room': "0 + length (spec_token_kinds (seg ?buf ?tail 0)) \<le> length (tl_tokens tlist)"
    using room by (simp add: seg_strlen)
  from tokenize_loop_spec [OF nul _ nw ns size room']
  obtain buf' toks' where
    "tokenize_loop sizeof_tokens ?tail ?buf 0 0 (tl_tokens tlist) =
       Inr (buf', length (spec_token_kinds (c_string ?buf)), toks')"
    "kinds (length (spec_token_kinds (c_string ?buf))) toks' = spec_token_kinds (c_string ?buf)"
    by (auto simp: seg_strlen kinds_def)
  then show "\<exists>line' tlist'.
             Tokenize sizeof_tokens line tlist = Inr (line', tlist')
           \<and> tl_len tlist' = length (spec_token_kinds (c_string (bl_buffer line)))
           \<and> map tok_type (take (tl_len tlist') (tl_tokens tlist')) =
               spec_token_kinds (c_string (bl_buffer line))"
    using nul by (simp add: Tokenize_def Let_def kinds_def)
next
  assume more: "length (tl_tokens tlist) < length (spec_token_kinds (c_string (bl_buffer line)))"
  show "\<not> (\<exists>line' tlist'.
             Tokenize sizeof_tokens line tlist = Inr (line', tlist')
           \<and> map tok_type (take (tl_len tlist') (tl_tokens tlist')) =
               spec_token_kinds (c_string (bl_buffer line)))"
  proof
    assume "\<exists>line' tlist'.
             Tokenize sizeof_tokens line tlist = Inr (line', tlist')
           \<and> map tok_type (take (tl_len tlist') (tl_tokens tlist')) =
               spec_token_kinds (c_string (bl_buffer line))"
    then obtain line' tlist' where
      t: "Tokenize sizeof_tokens line tlist = Inr (line', tlist')"
      and k: "map tok_type (take (tl_len tlist') (tl_tokens tlist')) =
               spec_token_kinds (c_string (bl_buffer line))"
      by blast
    have "length (spec_token_kinds (c_string (bl_buffer line))) =
            length (take (tl_len tlist') (tl_tokens tlist'))"
      using k [symmetric] by simp
    also have "\<dots> \<le> length (tl_tokens tlist')" by simp
    also have "\<dots> = length (tl_tokens tlist)" by (rule Tokenize_length [OF t])
    finally show False using more by simp
  qed
qed

theorem C9_token_kinds_witness:
  "(\<exists>line' tlist'.
     Tokenize 64 \<lparr>bl_len = 3, bl_buffer = ''>>>'' @ replicate 5 (CHR 0x00)\<rparr>
       \<lparr>tl_len = 0, tl_tokens = replicate 4 \<lparr>tok_type = TOKEN_INVALID, tok_value = 0\<rparr>\<rparr>
       = Inr (line', tlist')
   \<and> map tok_type (take (tl_len tlist') (tl_tokens tlist')) =
       [TOKEN_REDIRECT_OUTPUT_APPEND, TOKEN_REDIRECT_OUTPUT])
   \<and> \<not> (\<exists>line' tlist'.
     Tokenize 256
       \<lparr>bl_len = 26, bl_buffer = ''>>;>>;>>;>>;>>;>>;>>;>>;>>'' @ replicate 6 (CHR 0x00)\<rparr>
       \<lparr>tl_len = 0, tl_tokens = replicate 16 \<lparr>tok_type = TOKEN_INVALID, tok_value = 0\<rparr>\<rparr>
       = Inr (line', tlist')
   \<and> map tok_type (take (tl_len tlist') (tl_tokens tlist')) =
       spec_token_kinds ''>>;>>;>>;>>;>>;>>;>>;>>;>>'')"
proof -
  let ?line = "\<lparr>bl_len = 3, bl_buffer = ''>>>'' @ replicate 5 (CHR 0x00)\<rparr>"
  let ?tl = "\<lparr>tl_len = 0, tl_tokens = replicate 4 \<lparr>tok_type = TOKEN_INVALID, tok_value = 0\<rparr>\<rparr>"
  have str: "c_string (bl_buffer ?line) = ''>>>''"
    by (simp add: c_string_def)
  have sp: "spec_token_kinds ''>>>'' = [TOKEN_REDIRECT_OUTPUT_APPEND, TOKEN_REDIRECT_OUTPUT]"
    by (simp add: strchr_def whitespace_def symbols_def symbol_type_def)
  have nul: "strlen (bl_buffer ?line) < length (bl_buffer ?line)"
    by (simp add: strlen_def)
  have size: "length (tl_tokens ?tl) \<le> 64" by simp
  have room: "length (spec_token_kinds (c_string (bl_buffer ?line))) \<le> length (tl_tokens ?tl)"
    unfolding str sp by simp
  from C9_token_kinds [OF nul size, THEN conjunct1] room
  obtain line' tlist' where
    "Tokenize 64 ?line ?tl = Inr (line', tlist')"
    "map tok_type (take (tl_len tlist') (tl_tokens tlist')) =
       [TOKEN_REDIRECT_OUTPUT_APPEND, TOKEN_REDIRECT_OUTPUT]"
    unfolding str sp by auto
  then have fits: "\<exists>line' tlist'. Tokenize 64 ?line ?tl = Inr (line', tlist')
       \<and> map tok_type (take (tl_len tlist') (tl_tokens tlist')) =
           [TOKEN_REDIRECT_OUTPUT_APPEND, TOKEN_REDIRECT_OUTPUT]"
    by (intro exI conjI)
  let ?long = "\<lparr>bl_len = 26,
                 bl_buffer = ''>>;>>;>>;>>;>>;>>;>>;>>;>>'' @ replicate 6 (CHR 0x00)\<rparr>"
  let ?tl16 = "\<lparr>tl_len = 0,
                 tl_tokens = replicate 16 \<lparr>tok_type = TOKEN_INVALID, tok_value = 0\<rparr>\<rparr>"
  have str2: "c_string (bl_buffer ?long) = ''>>;>>;>>;>>;>>;>>;>>;>>;>>''"
    by (simp add: c_string_def)
  have nul2: "strlen (bl_buffer ?long) < length (bl_buffer ?long)"
    by (simp add: strlen_def)
  have size2: "length (tl_tokens ?tl16) \<le> 256" by simp
  have "length (tl_tokens ?tl16) < length (spec_token_kinds ''>>;>>;>>;>>;>>;>>;>>;>>;>>'')"
    by code_simp
  then have more:
    "length (tl_tokens ?tl16) < length (spec_token_kinds (c_string (bl_buffer ?long)))"
    unfolding str2 .
  have over: "\<not> (\<exists>line' tlist'. Tokenize 256 ?long ?tl16 = Inr (line', tlist')
       \<and> map tok_type (take (tl_len tlist') (tl_tokens tlist')) =
           spec_token_kinds ''>>;>>;>>;>>;>>;>>;>>;>>;>>'')"
    using C9_token_kinds [OF nul2 size2, THEN conjunct2] more unfolding str2 by blast
  show ?thesis using fits over by (intro conjI)
qed

theorem C9_token_overflow_counterexample:
  "length (spec_token_kinds ''>>;>>;>>;>>;>>;>>;>>;>>;>>'') = 17
   \<and> Tokenize (cfg_sizeof_tokens demo_cfg)
       \<lparr>bl_len = 26, bl_buffer = ''>>;>>;>>;>>;>>;>>;>>;>>;>>'' @ replicate 6 (CHR 0x00)\<rparr>
       \<lparr>tl_len = 0, tl_tokens = replicate 16 \<lparr>tok_type = TOKEN_INVALID, tok_value = 0\<rparr>\<rparr>
     = Inl (StoreOutOfBounds ''tl->tokens'' 16 16)
   \<and> fst (GetCommand demo_cfg (initial_shell demo_cfg 32 16)
            ''>>;>>;>>;>>;>>;>>;>>;>>;>>\<newline>'' [])
     = Faults (StoreOutOfBounds ''tl->tokens'' 16 16)"
  by code_simp

section \<open>Properties of the executor\<close>

subsection \<open>The processes of a pipeline\<close>

lemma scan_redirects_extends:
  "\<exists>evs. snd (scan_redirects env ty flags rs fd tr) = tr @ evs \<and> list_all fd_call evs"
proof (induction rs arbitrary: fd tr)
  case Nil
  then show ?case by simp
next
  case (Cons r rs)
  show ?case
  proof (cases "rtype r = ty \<and> \<not> dest_fd r \<ge> 0")
    case True
    from Cons [of "sys_ret env (length tr)" "tr @ [Open (carg_of (path r)) flags]"]
    obtain evs where
      "snd (scan_redirects env ty flags rs (sys_ret env (length tr))
             (tr @ [Open (carg_of (path r)) flags])) = (tr @ [Open (carg_of (path r)) flags]) @ evs"
      "list_all fd_call evs"
      by blast
    then show ?thesis
      using True by (intro exI [of _ "Open (carg_of (path r)) flags # evs"]) simp
  next
    case False
    then show ?thesis using Cons by auto
  qed
qed

lemma stage_wiring_extends:
  "\<exists>evs. stage_wiring env n x rd wr command tr = tr @ evs \<and> list_all fd_call evs
     \<and> (x = 0 \<longrightarrow> take 4 evs = [Close 1, Dup wr, Close rd, Close wr])
     \<and> (0 < x \<and> x + 1 = n \<longrightarrow> take 4 evs = [Close 0, Dup rd, Close rd, Close wr])
     \<and> (0 < x \<and> x + 1 < n \<longrightarrow> evs = [Close 1, Dup rd, Close 0, Dup wr, Close rd, Close wr])"
proof -
  consider (first) "x = 0" | (last) "0 < x" "x + 1 = n" | (middle) "0 < x" "x + 1 \<noteq> n"
    by auto
  then show ?thesis
  proof cases
    case first
    let ?tr1 = "tr @ [Close 1, Dup wr, Close rd, Close wr]"
    obtain fdIn tr2 where sr: "scan_redirects env REDIRECT_INPUT [O_RDONLY]
                            (take 3 (sc_redirects command)) (- 1) ?tr1 = (fdIn, tr2)"
      by (metis prod.exhaust)
    from scan_redirects_extends [of env REDIRECT_INPUT "[O_RDONLY]"
           "take 3 (sc_redirects command)" "- 1" ?tr1] sr
    obtain evs where evs: "tr2 = ?tr1 @ evs" "list_all fd_call evs" by auto
    have "stage_wiring env n x rd wr command tr =
            tr @ [Close 1, Dup wr, Close rd, Close wr] @ evs
               @ (if fdIn \<ge> 0 then [Close 0, Dup fdIn, Close fdIn] else [])"
      using first sr evs(1) by (simp add: stage_wiring_def)
    then show ?thesis
      using first evs(2)
      by (intro exI [of _ "[Close 1, Dup wr, Close rd, Close wr] @ evs
               @ (if fdIn \<ge> 0 then [Close 0, Dup fdIn, Close fdIn] else [])"]) simp
  next
    case last
    let ?tr1 = "tr @ [Close 0, Dup rd, Close rd, Close wr]"
    obtain fdOut tr2 where sr: "scan_redirects env REDIRECT_OUTPUT [O_WRONLY, O_CREATE]
                            (take 3 (sc_redirects command)) (- 1) ?tr1 = (fdOut, tr2)"
      by (metis prod.exhaust)
    from scan_redirects_extends [of env REDIRECT_OUTPUT "[O_WRONLY, O_CREATE]"
           "take 3 (sc_redirects command)" "- 1" ?tr1] sr
    obtain evs where evs: "tr2 = ?tr1 @ evs" "list_all fd_call evs" by auto
    have "stage_wiring env n x rd wr command tr =
            tr @ [Close 0, Dup rd, Close rd, Close wr] @ evs
               @ (if fdOut \<ge> 0 then [Close 1, Dup fdOut, Close fdOut] else [])"
      using last sr evs(1) by (simp add: stage_wiring_def)
    then show ?thesis
      using last evs(2)
      by (intro exI [of _ "[Close 0, Dup rd, Close rd, Close wr] @ evs
               @ (if fdOut \<ge> 0 then [Close 1, Dup fdOut, Close fdOut] else [])"]) simp
  next
    case middle
    then have "stage_wiring env n x rd wr command tr =
                 tr @ [Close 1, Dup rd, Close 0, Dup wr, Close rd, Close wr]"
      by (simp add: stage_wiring_def)
    then show ?thesis
      using middle
      by (intro exI [of _ "[Close 1, Dup rd, Close 0, Dup wr, Close rd, Close wr]"]) simp
  qed
qed

lemma pipeline_stages_extends:
  "\<exists>rest. snd (pipeline_stages env cd pl n rd wr x tr) = tr @ rest"
proof (induction env cd pl n rd wr x tr rule: pipeline_stages.induct)
  case (1 env cd pl numCommands rd wr x tr)
  show ?case
  proof (cases "x < numCommands")
    case False
    then show ?thesis
      by (subst pipeline_stages.simps) (simp add: pipeline_finish_def)
  next
    case True
    show ?thesis
    proof (cases "sys_ret env (length tr) = 0")
      case child: True
      show ?thesis
      proof (cases "stage_command cd pl x")
        case (Inl f)
        then show ?thesis
          using True child by (subst pipeline_stages.simps) simp
      next
        case (Inr command)
        obtain evs where w:
          "stage_wiring env numCommands x rd wr command (tr @ [Fork]) = (tr @ [Fork]) @ evs"
          using stage_wiring_extends by blast
        let ?tr2 = "(tr @ [Fork]) @ evs
                      @ [Exec (carg_of (sc_name command)) (exec_args (sc_argv command))]"
        from "1.IH"(1) [OF True refl refl child Inr, of ?tr2]
        obtain rest where
          "snd (pipeline_stages env cd pl numCommands rd wr (x + 1) ?tr2) = ?tr2 @ rest"
          by blast
        then show ?thesis
          using True child Inr w
          by (subst pipeline_stages.simps) (simp add: do_exec_def Let_def)
      qed
    next
      case parent: False
      from "1.IH"(2) [OF True refl refl parent]
      obtain rest where
        "snd (pipeline_stages env cd pl numCommands rd wr (x + 1) (tr @ [Fork])) =
           (tr @ [Fork]) @ rest"
        by blast
      then show ?thesis
        using True parent by (subst pipeline_stages.simps) simp
    qed
  qed
qed

lemma pipeline_stages_parent:
  "\<forall>j<n - x. sys_ret env (length tr + j) \<noteq> 0 \<Longrightarrow>
   pipeline_stages env cd pl n rd wr x tr =
     (Returns 0, tr @ replicate (n - x) Fork @ [Close rd, Close wr] @ replicate (pl_len pl) Wait)"
proof (induction env cd pl n rd wr x tr rule: pipeline_stages.induct)
  case (1 env cd pl numCommands rd wr x tr)
  show ?case
  proof (cases "x < numCommands")
    case False
    then show ?thesis
      by (subst pipeline_stages.simps) (simp add: pipeline_finish_def)
  next
    case True
    then have parent: "sys_ret env (length tr) \<noteq> 0"
      using "1.prems" by (metis add.right_neutral zero_less_diff)
    have later: "\<forall>j<numCommands - (x + 1). sys_ret env (length (tr @ [Fork]) + j) \<noteq> 0"
    proof (intro allI impI)
      fix j assume "j < numCommands - (x + 1)"
      then have "Suc j < numCommands - x" by simp
      then show "sys_ret env (length (tr @ [Fork]) + j) \<noteq> 0"
        using "1.prems" by (metis add_Suc_shift length_append_singleton)
    qed
    have n: "numCommands - x = Suc (numCommands - (x + 1))" using True by simp
    show ?thesis
      using "1.IH"(2) [OF True refl refl parent later] True parent
      by (subst pipeline_stages.simps) (simp add: n)
  qed
qed

lemma pipeline_stages_child:
  "x + k < n \<Longrightarrow> \<forall>j<k. sys_ret env (length tr + j) \<noteq> 0 \<Longrightarrow>
   sys_ret env (length tr + k) = 0 \<Longrightarrow> stage_command cd pl (x + k) = Inr command \<Longrightarrow>
   \<exists>out rest. pipeline_stages env cd pl n rd wr x tr =
     (out, stage_wiring env n (x + k) rd wr command (tr @ replicate (k + 1) Fork)
             @ [Exec (carg_of (sc_name command)) (exec_args (sc_argv command))] @ rest)
      \<and> (\<not> exec_fails env
             (length (stage_wiring env n (x + k) rd wr command (tr @ replicate (k + 1) Fork)))
           \<longrightarrow> out = Replaced \<and> rest = [])"
proof (induction k arbitrary: x tr)
  case 0
  let ?w = "stage_wiring env n x rd wr command (tr @ [Fork])"
  let ?tr2 = "?w @ [Exec (carg_of (sc_name command)) (exec_args (sc_argv command))]"
  obtain rest where r: "snd (pipeline_stages env cd pl n rd wr (x + 1) ?tr2) = ?tr2 @ rest"
    using pipeline_stages_extends by blast
  have "pipeline_stages env cd pl n rd wr x tr =
          (if exec_fails env (length ?w) then pipeline_stages env cd pl n rd wr (x + 1) ?tr2
           else (Replaced, ?tr2))"
    using 0 by (subst pipeline_stages.simps) (simp add: do_exec_def Let_def)
  then show ?case
    using r
    by (cases "exec_fails env (length ?w)")
       (auto simp: prod_eq_iff intro: exI [of _ rest])
next
  case (Suc k)
  have parent: "sys_ret env (length tr) \<noteq> 0"
    using Suc.prems(2) by (metis add.right_neutral zero_less_Suc)
  have x: "x < n" using Suc.prems(1) by simp
  have eq: "pipeline_stages env cd pl n rd wr x tr =
              pipeline_stages env cd pl n rd wr (x + 1) (tr @ [Fork])"
    using x parent by (subst pipeline_stages.simps) simp
  have a: "(x + 1) + k < n" using Suc.prems(1) by simp
  have b: "\<forall>j<k. sys_ret env (length (tr @ [Fork]) + j) \<noteq> 0"
  proof (intro allI impI)
    fix j assume "j < k"
    then have "Suc j < Suc k" by simp
    then show "sys_ret env (length (tr @ [Fork]) + j) \<noteq> 0"
      using Suc.prems(2) by (metis add_Suc_shift length_append_singleton)
  qed
  have c: "sys_ret env (length (tr @ [Fork]) + k) = 0" using Suc.prems(3) by simp
  have d: "stage_command cd pl ((x + 1) + k) = Inr command" using Suc.prems(4) by simp
  have e: "(tr @ [Fork]) @ replicate (k + 1) Fork = tr @ replicate (Suc k + 1) Fork"
    by simp
  show ?case
    using Suc.IH [OF a b c d] unfolding eq e by simp
qed

text \<open>
  C6. \<^verbatim>\<open>runPipelineCommnad\<close> on a pipeline of \<open>N = pl_len pl\<close> stages, with \<open>rd\<close> and
  \<open>wr\<close> the descriptors that \<^verbatim>\<open>pipe\<close> stores. In the parent (every \<^verbatim>\<open>fork\<close> returns a
  value other than 0) the calls are: one \<^verbatim>\<open>pipe\<close>, then \<open>N\<close> times \<^verbatim>\<open>fork\<close>, then
  \<^verbatim>\<open>close(rd)\<close>, \<^verbatim>\<open>close(wr)\<close> and \<open>N\<close> times \<^verbatim>\<open>wait\<close>, and it returns 0. In the child
  of stage \<open>x\<close> (the \<^verbatim>\<open>fork\<close> number \<open>x\<close> returns 0) the calls between that \<^verbatim>\<open>fork\<close> and
  \<^verbatim>\<open>exec\<close> are calls on descriptors only, and they start with \<^verbatim>\<open>close(1); dup(wr);
  close(rd); close(wr)\<close> in the first stage, with \<^verbatim>\<open>close(0); dup(rd); close(rd);
  close(wr)\<close> in the last stage of a pipeline of two or more, and are exactly
  \<^verbatim>\<open>close(1); dup(rd); close(0); dup(wr); close(rd); close(wr)\<close> in a middle stage.
\<close>

theorem C6_pipeline_wiring:
  assumes pipe: "sys_pipe env (length tr) = (rd, wr)"
  shows "((\<forall>j<pl_len pl. sys_ret env (length tr + 1 + j) \<noteq> 0) \<longrightarrow>
            runPipelineCommnad env cd pl tr =
              (Returns 0, tr @ [Pipe] @ replicate (pl_len pl) Fork @ [Close rd, Close wr]
                 @ replicate (pl_len pl) Wait))
       \<and> (x < pl_len pl \<and> (\<forall>j<x. sys_ret env (length tr + 1 + j) \<noteq> 0)
          \<and> sys_ret env (length tr + 1 + x) = 0 \<and> stage_command cd pl x = Inr command \<longrightarrow>
            (\<exists>evs out rest.
               runPipelineCommnad env cd pl tr =
                 (out, tr @ [Pipe] @ replicate (x + 1) Fork @ evs
                    @ [Exec (carg_of (sc_name command)) (exec_args (sc_argv command))] @ rest)
             \<and> list_all fd_call evs
             \<and> (x = 0 \<longrightarrow> take 4 evs = [Close 1, Dup wr, Close rd, Close wr])
             \<and> (0 < x \<and> x + 1 = pl_len pl \<longrightarrow>
                  take 4 evs = [Close 0, Dup rd, Close rd, Close wr])
             \<and> (0 < x \<and> x + 1 < pl_len pl \<longrightarrow>
                  evs = [Close 1, Dup rd, Close 0, Dup wr, Close rd, Close wr])))"
proof (intro conjI impI)
  assume "\<forall>j<pl_len pl. sys_ret env (length tr + 1 + j) \<noteq> 0"
  then have "\<forall>j<pl_len pl - 0. sys_ret env (length (tr @ [Pipe]) + j) \<noteq> 0" by simp
  from pipeline_stages_parent [OF this, of cd pl rd wr]
  show "runPipelineCommnad env cd pl tr =
              (Returns 0, tr @ [Pipe] @ replicate (pl_len pl) Fork @ [Close rd, Close wr]
                 @ replicate (pl_len pl) Wait)"
    using pipe by (simp add: runPipelineCommnad_def)
next
  assume h: "x < pl_len pl \<and> (\<forall>j<x. sys_ret env (length tr + 1 + j) \<noteq> 0)
          \<and> sys_ret env (length tr + 1 + x) = 0 \<and> stage_command cd pl x = Inr command"
  let ?pre = "(tr @ [Pipe]) @ replicate (x + 1) Fork"
  have a: "0 + x < pl_len pl" using h by simp
  have b: "\<forall>j<x. sys_ret env (length (tr @ [Pipe]) + j) \<noteq> 0" using h by simp
  have c: "sys_ret env (length (tr @ [Pipe]) + x) = 0" using h by simp
  have d: "stage_command cd pl (0 + x) = Inr command" using h by simp
  from pipeline_stages_child [OF a b c d, of rd wr]
  obtain out rest where run:
    "pipeline_stages env cd pl (pl_len pl) rd wr 0 (tr @ [Pipe]) =
       (out, stage_wiring env (pl_len pl) x rd wr command ?pre
               @ [Exec (carg_of (sc_name command)) (exec_args (sc_argv command))] @ rest)"
    by auto
  from stage_wiring_extends [of env "pl_len pl" x rd wr command ?pre]
  obtain evs where evs:
    "stage_wiring env (pl_len pl) x rd wr command ?pre = ?pre @ evs" "list_all fd_call evs"
    "x = 0 \<longrightarrow> take 4 evs = [Close 1, Dup wr, Close rd, Close wr]"
    "0 < x \<and> x + 1 = pl_len pl \<longrightarrow> take 4 evs = [Close 0, Dup rd, Close rd, Close wr]"
    "0 < x \<and> x + 1 < pl_len pl \<longrightarrow> evs = [Close 1, Dup rd, Close 0, Dup wr, Close rd, Close wr]"
    by blast
  have "runPipelineCommnad env cd pl tr =
                 (out, tr @ [Pipe] @ replicate (x + 1) Fork @ evs
                    @ [Exec (carg_of (sc_name command)) (exec_args (sc_argv command))] @ rest)"
    using pipe run evs(1) by (simp add: runPipelineCommnad_def)
  then show "\<exists>evs out rest.
               runPipelineCommnad env cd pl tr =
                 (out, tr @ [Pipe] @ replicate (x + 1) Fork @ evs
                    @ [Exec (carg_of (sc_name command)) (exec_args (sc_argv command))] @ rest)
             \<and> list_all fd_call evs
             \<and> (x = 0 \<longrightarrow> take 4 evs = [Close 1, Dup wr, Close rd, Close wr])
             \<and> (0 < x \<and> x + 1 = pl_len pl \<longrightarrow>
                  take 4 evs = [Close 0, Dup rd, Close rd, Close wr])
             \<and> (0 < x \<and> x + 1 < pl_len pl \<longrightarrow>
                  evs = [Close 1, Dup rd, Close 0, Dup wr, Close rd, Close wr])"
    using evs(2-5) by blast
qed

theorem C6_pipeline_wiring_witness:
  "runPipelineCommnad (answers 5) (sh_cmd_data (shell_after ''a | b | c\<newline>''))
       (pipeline (sh_cmd_data (shell_after ''a | b | c\<newline>''))) [] =
     (Returns 0, [Pipe, Fork, Fork, Fork, Close 3, Close 4, Wait, Wait, Wait])
   \<and> (\<exists>out rest.
        runPipelineCommnad ((answers 5)\<lparr>sys_ret := (\<lambda>n. if n = 2 then 0 else 5)\<rparr>)
          (sh_cmd_data (shell_after ''a | b | c\<newline>''))
          (pipeline (sh_cmd_data (shell_after ''a | b | c\<newline>''))) [] =
        (out, [Pipe, Fork, Fork, Close 1, Dup 3, Close 0, Dup 4, Close 3, Close 4,
               Exec (InLine 4) [InLine 4]] @ rest))"
proof -
  let ?cd = "sh_cmd_data (shell_after ''a | b | c\<newline>'')"
  let ?pl = "pipeline ?cd"
  let ?env = "(answers 5)\<lparr>sys_ret := (\<lambda>n. if n = 2 then 0 else 5)\<rparr>"
  have len: "pl_len ?pl = 3" by code_simp
  have cmd: "stage_command ?cd ?pl 1 = Inr (simples ?cd ! 1)" by code_simp
  have nm: "carg_of (sc_name (simples ?cd ! Suc 0)) = InLine 4"
    "exec_args (sc_argv (simples ?cd ! Suc 0)) = [InLine 4]"
    by code_simp+
  have p1: "sys_pipe (answers 5) (length ([]::event list)) = (3, 4)"
    by (simp add: answers_def)
  have p2: "sys_pipe ?env (length ([]::event list)) = (3, 4)"
    by (simp add: answers_def)
  have parent: "\<forall>j<pl_len ?pl. sys_ret (answers 5) (length ([]::event list) + 1 + j) \<noteq> 0"
    by (simp add: answers_def)
  have child: "1 < pl_len ?pl \<and> (\<forall>j<1. sys_ret ?env (length ([]::event list) + 1 + j) \<noteq> 0)
          \<and> sys_ret ?env (length ([]::event list) + 1 + 1) = 0
          \<and> stage_command ?cd ?pl 1 = Inr (simples ?cd ! 1)"
    using len cmd by simp
  have mid: "0 < (1::nat) \<and> 1 + 1 < pl_len ?pl" using len by simp
  from C6_pipeline_wiring [OF p1, of ?pl ?cd 1 "simples ?cd ! 1"] parent
  have a: "runPipelineCommnad (answers 5) ?cd ?pl [] =
     (Returns 0, [Pipe, Fork, Fork, Fork, Close 3, Close 4, Wait, Wait, Wait])"
    by (simp add: len numeral_3_eq_3)
  from C6_pipeline_wiring [OF p2, of ?pl ?cd 1 "simples ?cd ! 1"] child mid
  obtain evs out rest where
    "runPipelineCommnad ?env ?cd ?pl [] =
       (out, [] @ [Pipe] @ replicate (1 + 1) Fork @ evs
          @ [Exec (carg_of (sc_name (simples ?cd ! 1))) (exec_args (sc_argv (simples ?cd ! 1)))] @ rest)"
    "evs = [Close 1, Dup 3, Close 0, Dup 4, Close 3, Close 4]"
    by blast
  then have "runPipelineCommnad ?env ?cd ?pl [] =
       (out, [Pipe, Fork, Fork, Close 1, Dup 3, Close 0, Dup 4, Close 3, Close 4,
               Exec (InLine 4) [InLine 4]] @ rest)"
    by (simp add: nm numeral_2_eq_2)
  then show ?thesis using a by blast
qed

subsection \<open>The value that \<^verbatim>\<open>RunCommand\<close> returns\<close>

lemma runSimpleCommand_fork_failed:
  "sys_ret env (length tr) < 0 \<Longrightarrow>
   runSimpleCommand env command tr =
     (Returns (- 1), tr @ [Fork, Diag (ErrorS ''Fork failed\<newline>'')])"
  by (simp add: runSimpleCommand_def Let_def)

lemma run_simple_returns:
  "run_simple env shell command nm tr = (Returns v, shell', tr') \<Longrightarrow> v = 0"
  by (auto simp: run_simple_def Let_def split: if_splits sum.splits prod.splits outcome.splits)

lemma RunCommand_returns:
  assumes "RunCommand env shell tr = (Returns v, shell', tr')"
  shows "v = (if cmd_type (cmd (sh_cmd_data shell)) = CMD_EMPTY then 1
              else if cmd_type (cmd (sh_cmd_data shell)) = CMD_INVALID then - 1 else 0)"
  using assms
  by (auto simp: RunCommand_def Let_def dest: run_simple_returns
        split: if_splits cmd_union.splits option.splits prod.splits outcome.splits)

lemma runSimpleCommand_in_child:
  assumes "sys_ret env (length tr) = 0"
  shows "fst (runSimpleCommand env command tr) = Replaced
       \<or> (\<exists>n. fst (runSimpleCommand env command tr) = Exits n)"
  using assms
  by (simp add: runSimpleCommand_def redirect_input_def redirect_output_def exec_or_exit_def
      do_exec_def Let_def)

text \<open>
  C5. The claim: \<^verbatim>\<open>RunCommand\<close> returns 0 for a dispatched command, 1 for an empty one,
  and \<open>-1\<close> for an invalid one or when \<^verbatim>\<open>fork\<close> fails for an external simple command.
  The last part fails: \<^verbatim>\<open>runSimpleCommand\<close> returns \<open>-1\<close> when \<^verbatim>\<open>fork\<close> fails, but
  \<^verbatim>\<open>RunCommand\<close> calls it as a statement and returns 0 after it. The theorem:
  \<^verbatim>\<open>RunCommand\<close> returns 1 for \<^verbatim>\<open>CMD_EMPTY\<close>, with the shell and the events unchanged,
  and \<open>-1\<close> for \<^verbatim>\<open>CMD_INVALID\<close>; for every other type, whenever it returns, it returns
  0; and it does return 0 for each command that the shell process dispatches: an
  external simple command whose \<^verbatim>\<open>fork\<close> fails (where \<^verbatim>\<open>runSimpleCommand\<close> returns
  \<open>-1\<close>) or returns a process id (the events are \<^verbatim>\<open>fork\<close> and \<^verbatim>\<open>wait\<close>), \<^verbatim>\<open>cd\<close> (the
  shell unchanged), \<^verbatim>\<open>quit\<close> whose argument, if it has one, is not a null pointer
  (\<^verbatim>\<open>should_run\<close> cleared, no event), a pipeline every \<^verbatim>\<open>fork\<close> of which returns a value
  other than 0, and a command of type \<^verbatim>\<open>CMD_LIST\<close>. It does not return for the
  built-in \<^verbatim>\<open>exit\<close>, which ends the process, nor in the child of an external simple
  command, which ends in \<^verbatim>\<open>exit\<close> or is replaced by \<^verbatim>\<open>exec\<close>. The child of a stage of
  a pipeline is the case that is left: when its \<^verbatim>\<open>exec\<close> comes back it goes on with the
  loop, and if \<^verbatim>\<open>RunCommand\<close> returns there, it returns 0 by the third part.
\<close>

theorem C5_RunCommand_status:
  "(cmd_type (cmd (sh_cmd_data shell)) = CMD_EMPTY \<longrightarrow>
      RunCommand env shell tr = (Returns 1, shell, tr))
   \<and> (cmd_type (cmd (sh_cmd_data shell)) = CMD_INVALID \<longrightarrow>
      fst (RunCommand env shell tr) = Returns (- 1))
   \<and> (cmd_type (cmd (sh_cmd_data shell)) \<noteq> CMD_EMPTY
      \<and> cmd_type (cmd (sh_cmd_data shell)) \<noteq> CMD_INVALID
      \<and> fst (RunCommand env shell tr) = Returns v \<longrightarrow> v = 0)
   \<and> (cmd_type (cmd (sh_cmd_data shell)) = CMD_SIMPLE
      \<and> cmd_cmd (cmd (sh_cmd_data shell)) = SimplePtr k
      \<and> k < length (simples (sh_cmd_data shell))
      \<and> sc_name (simples (sh_cmd_data shell) ! k) = Some p
      \<and> cstr_at (bl_buffer (sh_cmdline shell)) p \<notin> {''quit'', ''exit'', ''cd''}
      \<and> sys_ret env (length tr) < 0 \<longrightarrow>
      runSimpleCommand env (simples (sh_cmd_data shell) ! k) tr =
        (Returns (- 1), tr @ [Fork, Diag (ErrorS ''Fork failed\<newline>'')])
      \<and> RunCommand env shell tr =
        (Returns 0, shell, tr @ [Fork, Diag (ErrorS ''Fork failed\<newline>'')]))
   \<and> (cmd_type (cmd (sh_cmd_data shell)) = CMD_SIMPLE
      \<and> cmd_cmd (cmd (sh_cmd_data shell)) = SimplePtr k
      \<and> k < length (simples (sh_cmd_data shell))
      \<and> sc_name (simples (sh_cmd_data shell) ! k) = Some p
      \<and> cstr_at (bl_buffer (sh_cmdline shell)) p \<notin> {''quit'', ''exit'', ''cd''}
      \<and> 0 < sys_ret env (length tr) \<longrightarrow>
      RunCommand env shell tr = (Returns 0, shell, tr @ [Fork, Wait]))
   \<and> (cmd_type (cmd (sh_cmd_data shell)) = CMD_SIMPLE
      \<and> cmd_cmd (cmd (sh_cmd_data shell)) = SimplePtr k
      \<and> k < length (simples (sh_cmd_data shell))
      \<and> sc_name (simples (sh_cmd_data shell) ! k) = Some p
      \<and> cstr_at (bl_buffer (sh_cmdline shell)) p = ''cd'' \<longrightarrow>
      fst (RunCommand env shell tr) = Returns 0
      \<and> fst (snd (RunCommand env shell tr)) = shell)
   \<and> (cmd_type (cmd (sh_cmd_data shell)) = CMD_SIMPLE
      \<and> cmd_cmd (cmd (sh_cmd_data shell)) = SimplePtr k
      \<and> k < length (simples (sh_cmd_data shell))
      \<and> sc_name (simples (sh_cmd_data shell) ! k) = Some p
      \<and> cstr_at (bl_buffer (sh_cmdline shell)) p = ''quit''
      \<and> (1 < sc_argc (simples (sh_cmd_data shell) ! k) \<longrightarrow>
           sc_argv (simples (sh_cmd_data shell) ! k) ! 1 \<noteq> None) \<longrightarrow>
      fst (RunCommand env shell tr) = Returns 0
      \<and> \<not> sh_should_run (fst (snd (RunCommand env shell tr)))
      \<and> snd (snd (RunCommand env shell tr)) = tr)
   \<and> (cmd_type (cmd (sh_cmd_data shell)) = CMD_SIMPLE
      \<and> cmd_cmd (cmd (sh_cmd_data shell)) = SimplePtr k
      \<and> k < length (simples (sh_cmd_data shell))
      \<and> sc_name (simples (sh_cmd_data shell) ! k) = Some p
      \<and> cstr_at (bl_buffer (sh_cmdline shell)) p = ''exit''
      \<and> (1 < sc_argc (simples (sh_cmd_data shell) ! k) \<longrightarrow>
           sc_argv (simples (sh_cmd_data shell) ! k) ! 1 \<noteq> None) \<longrightarrow>
      (\<exists>n. fst (RunCommand env shell tr) = Exits n))
   \<and> (cmd_type (cmd (sh_cmd_data shell)) = CMD_SIMPLE
      \<and> cmd_cmd (cmd (sh_cmd_data shell)) = SimplePtr k
      \<and> k < length (simples (sh_cmd_data shell))
      \<and> sc_name (simples (sh_cmd_data shell) ! k) = Some p
      \<and> cstr_at (bl_buffer (sh_cmdline shell)) p \<notin> {''quit'', ''exit'', ''cd''}
      \<and> sys_ret env (length tr) = 0 \<longrightarrow>
      fst (RunCommand env shell tr) = Replaced \<or> (\<exists>n. fst (RunCommand env shell tr) = Exits n))
   \<and> (cmd_type (cmd (sh_cmd_data shell)) = CMD_PIPELINE
      \<and> (\<forall>j<pl_len (pipeline (sh_cmd_data shell)). sys_ret env (length tr + 1 + j) \<noteq> 0) \<longrightarrow>
      RunCommand env shell tr =
        (Returns 0, shell,
         tr @ [Pipe] @ replicate (pl_len (pipeline (sh_cmd_data shell))) Fork
            @ [Close (fst (sys_pipe env (length tr))), Close (snd (sys_pipe env (length tr)))]
            @ replicate (pl_len (pipeline (sh_cmd_data shell))) Wait))
   \<and> (cmd_type (cmd (sh_cmd_data shell)) = CMD_LIST \<longrightarrow>
      RunCommand env shell tr = (Returns 0, shell, tr))"
proof -
  let ?cd = "sh_cmd_data shell"
  let ?c = "simples ?cd ! k"
  let ?nm = "cstr_at (bl_buffer (sh_cmdline shell)) p"
  have e: "RunCommand env shell tr = (Returns 1, shell, tr)"
    if "cmd_type (cmd ?cd) = CMD_EMPTY"
    using that by (simp add: RunCommand_def Let_def)
  have i: "fst (RunCommand env shell tr) = Returns (- 1)"
    if "cmd_type (cmd ?cd) = CMD_INVALID"
    using that by (simp add: RunCommand_def Let_def)
  have z: "v = 0"
    if a: "cmd_type (cmd ?cd) \<noteq> CMD_EMPTY"
      and b: "cmd_type (cmd ?cd) \<noteq> CMD_INVALID"
      and c: "fst (RunCommand env shell tr) = Returns v"
  proof -
    obtain shell' tr' where "RunCommand env shell tr = (Returns v, shell', tr')"
      using c by (metis fst_conv prod_cases3)
    from RunCommand_returns [OF this] a b show ?thesis by simp
  qed
  have simple: "RunCommand env shell tr = run_simple env shell ?c ?nm tr"
    if "cmd_type (cmd ?cd) = CMD_SIMPLE" "cmd_cmd (cmd ?cd) = SimplePtr k"
      "k < length (simples ?cd)" "sc_name ?c = Some p"
    using that by (simp add: RunCommand_def Let_def)
  have f: "RunCommand env shell tr =
        (Returns 0, shell, tr @ [Fork, Diag (ErrorS ''Fork failed\<newline>'')])"
    if "cmd_type (cmd ?cd) = CMD_SIMPLE" "cmd_cmd (cmd ?cd) = SimplePtr k"
      "k < length (simples ?cd)" "sc_name ?c = Some p"
      and nm: "?nm \<notin> {''quit'', ''exit'', ''cd''}"
      and ff: "sys_ret env (length tr) < 0"
    unfolding simple [OF that(1-4)]
    using nm runSimpleCommand_fork_failed [OF ff, of ?c]
    by (simp add: run_simple_def)
  have w: "RunCommand env shell tr = (Returns 0, shell, tr @ [Fork, Wait])"
    if "cmd_type (cmd ?cd) = CMD_SIMPLE" "cmd_cmd (cmd ?cd) = SimplePtr k"
      "k < length (simples ?cd)" "sc_name ?c = Some p"
      and nm: "?nm \<notin> {''quit'', ''exit'', ''cd''}"
      and pos: "0 < sys_ret env (length tr)"
    unfolding simple [OF that(1-4)]
    using nm pos by (simp add: run_simple_def runSimpleCommand_def Let_def)
  have c: "fst (RunCommand env shell tr) = Returns 0
      \<and> fst (snd (RunCommand env shell tr)) = shell"
    if "cmd_type (cmd ?cd) = CMD_SIMPLE" "cmd_cmd (cmd ?cd) = SimplePtr k"
      "k < length (simples ?cd)" "sc_name ?c = Some p"
      and nm: "?nm = ''cd''"
    unfolding simple [OF that(1-4)] nm
    by (simp add: run_simple_def Let_def)
  have q: "fst (RunCommand env shell tr) = Returns 0
      \<and> \<not> sh_should_run (fst (snd (RunCommand env shell tr)))
      \<and> snd (snd (RunCommand env shell tr)) = tr"
    if "cmd_type (cmd ?cd) = CMD_SIMPLE" "cmd_cmd (cmd ?cd) = SimplePtr k"
      "k < length (simples ?cd)" "sc_name ?c = Some p"
      and nm: "?nm = ''quit''"
      and arg: "1 < sc_argc ?c \<longrightarrow> sc_argv ?c ! 1 \<noteq> None"
    unfolding simple [OF that(1-4)] nm
    using arg by (auto simp: run_simple_def Let_def atoi_arg1_def split: option.splits)
  have x: "\<exists>n. fst (RunCommand env shell tr) = Exits n"
    if "cmd_type (cmd ?cd) = CMD_SIMPLE" "cmd_cmd (cmd ?cd) = SimplePtr k"
      "k < length (simples ?cd)" "sc_name ?c = Some p"
      and nm: "?nm = ''exit''"
      and arg: "1 < sc_argc ?c \<longrightarrow> sc_argv ?c ! 1 \<noteq> None"
    unfolding simple [OF that(1-4)] nm
    using arg by (auto simp: run_simple_def Let_def atoi_arg1_def split: option.splits)
  have ch: "fst (RunCommand env shell tr) = Replaced
      \<or> (\<exists>n. fst (RunCommand env shell tr) = Exits n)"
    if "cmd_type (cmd ?cd) = CMD_SIMPLE" "cmd_cmd (cmd ?cd) = SimplePtr k"
      "k < length (simples ?cd)" "sc_name ?c = Some p"
      and nm: "?nm \<notin> {''quit'', ''exit'', ''cd''}"
      and zero: "sys_ret env (length tr) = 0"
  proof -
    obtain out tr1 where r: "runSimpleCommand env ?c tr = (out, tr1)"
      by (metis prod.exhaust)
    then have "out = Replaced \<or> (\<exists>n. out = Exits n)"
      using runSimpleCommand_in_child [OF zero, of ?c] by simp
    then show ?thesis
      unfolding simple [OF that(1-4)]
      using nm r by (auto simp: run_simple_def)
  qed
  have pl: "RunCommand env shell tr =
        (Returns 0, shell,
         tr @ [Pipe] @ replicate (pl_len (pipeline ?cd)) Fork
            @ [Close (fst (sys_pipe env (length tr))), Close (snd (sys_pipe env (length tr)))]
            @ replicate (pl_len (pipeline ?cd)) Wait)"
    if ty: "cmd_type (cmd ?cd) = CMD_PIPELINE"
      and par: "\<forall>j<pl_len (pipeline ?cd). sys_ret env (length tr + 1 + j) \<noteq> 0"
  proof -
    from par have "\<forall>j<pl_len (pipeline ?cd) - 0. sys_ret env (length (tr @ [Pipe]) + j) \<noteq> 0"
      by simp
    from pipeline_stages_parent [OF this, of ?cd "pipeline ?cd"
           "fst (sys_pipe env (length tr))" "snd (sys_pipe env (length tr))"]
    have "runPipelineCommnad env ?cd (pipeline ?cd) tr =
        (Returns 0,
         tr @ [Pipe] @ replicate (pl_len (pipeline ?cd)) Fork
            @ [Close (fst (sys_pipe env (length tr))), Close (snd (sys_pipe env (length tr)))]
            @ replicate (pl_len (pipeline ?cd)) Wait)"
      by (simp add: runPipelineCommnad_def split_beta)
    then show ?thesis using ty by (simp add: RunCommand_def Let_def)
  qed
  have l: "RunCommand env shell tr = (Returns 0, shell, tr)"
    if "cmd_type (cmd ?cd) = CMD_LIST"
    using that by (simp add: RunCommand_def Let_def)
  show ?thesis
    apply (intro conjI impI)
    subgoal by (rule e)
    subgoal by (rule i)
    subgoal by (elim conjE) (rule z)
    subgoal by (elim conjE) (rule runSimpleCommand_fork_failed)
    subgoal by (elim conjE) (rule f)
    subgoal by (elim conjE) (rule w)
    subgoal by (elim conjE) (rule c [THEN conjunct1])
    subgoal by (elim conjE) (rule c [THEN conjunct2])
    subgoal by (elim conjE) (rule q [THEN conjunct1])
    subgoal by (elim conjE) (rule q [THEN conjunct2, THEN conjunct1])
    subgoal by (elim conjE) (rule q [THEN conjunct2, THEN conjunct2])
    subgoal by (elim conjE) (rule x)
    subgoal by (elim conjE) (rule ch)
    subgoal by (elim conjE) (rule pl)
    subgoal by (rule l)
    done
qed

theorem C5_RunCommand_status_witness:
  "RunCommand (answers (- 1)) (shell_after ''ls\<newline>'') [] =
     (Returns 0, shell_after ''ls\<newline>'', [Fork, Diag (ErrorS ''Fork failed\<newline>'')])
   \<and> runSimpleCommand (answers (- 1)) (simples (sh_cmd_data (shell_after ''ls\<newline>'')) ! 0) [] =
     (Returns (- 1), [Fork, Diag (ErrorS ''Fork failed\<newline>'')])
   \<and> RunCommand (answers 5) (shell_after ''ls\<newline>'') [] =
     (Returns 0, shell_after ''ls\<newline>'', [Fork, Wait])
   \<and> fst (RunCommand (answers 0) (shell_after ''cd /tmp\<newline>'') []) = Returns 0
   \<and> fst (RunCommand (answers 0) (shell_after ''quit 3\<newline>'') []) = Returns 0
   \<and> \<not> sh_should_run (fst (snd (RunCommand (answers 0) (shell_after ''quit 3\<newline>'') [])))
   \<and> RunCommand (answers 5) (shell_after ''a | b\<newline>'') [] =
     (Returns 0, shell_after ''a | b\<newline>'', [Pipe, Fork, Fork, Close 3, Close 4, Wait, Wait])
   \<and> (\<exists>n. fst (RunCommand (answers 0) (shell_after ''exit 2\<newline>'') []) = Exits n)
   \<and> (fst (RunCommand (answers 0) (shell_after ''ls\<newline>'') []) = Replaced
      \<or> (\<exists>n. fst (RunCommand (answers 0) (shell_after ''ls\<newline>'') []) = Exits n))"
proof -
  let ?ls = "shell_after ''ls\<newline>''"
  let ?cd = "shell_after ''cd /tmp\<newline>''"
  let ?quit = "shell_after ''quit 3\<newline>''"
  let ?ab = "shell_after ''a | b\<newline>''"
  have ls: "cmd_type (cmd (sh_cmd_data ?ls)) = CMD_SIMPLE"
    "cmd_cmd (cmd (sh_cmd_data ?ls)) = SimplePtr 0"
    "0 < length (simples (sh_cmd_data ?ls))"
    "sc_name (simples (sh_cmd_data ?ls) ! 0) = Some 0"
    "cstr_at (bl_buffer (sh_cmdline ?ls)) 0 \<notin> {''quit'', ''exit'', ''cd''}"
    by code_simp+
  have cd: "cmd_type (cmd (sh_cmd_data ?cd)) = CMD_SIMPLE"
    "cmd_cmd (cmd (sh_cmd_data ?cd)) = SimplePtr 0"
    "0 < length (simples (sh_cmd_data ?cd))"
    "sc_name (simples (sh_cmd_data ?cd) ! 0) = Some 0"
    "cstr_at (bl_buffer (sh_cmdline ?cd)) 0 = ''cd''"
    by code_simp+
  have quit: "cmd_type (cmd (sh_cmd_data ?quit)) = CMD_SIMPLE"
    "cmd_cmd (cmd (sh_cmd_data ?quit)) = SimplePtr 0"
    "0 < length (simples (sh_cmd_data ?quit))"
    "sc_name (simples (sh_cmd_data ?quit) ! 0) = Some 0"
    "cstr_at (bl_buffer (sh_cmdline ?quit)) 0 = ''quit''"
    "sc_argv (simples (sh_cmd_data ?quit) ! 0) ! Suc 0 \<noteq> None"
    by code_simp+
  let ?exit = "shell_after ''exit 2\<newline>''"
  have exit: "cmd_type (cmd (sh_cmd_data ?exit)) = CMD_SIMPLE"
    "cmd_cmd (cmd (sh_cmd_data ?exit)) = SimplePtr 0"
    "0 < length (simples (sh_cmd_data ?exit))"
    "sc_name (simples (sh_cmd_data ?exit) ! 0) = Some 0"
    "cstr_at (bl_buffer (sh_cmdline ?exit)) 0 = ''exit''"
    "sc_argv (simples (sh_cmd_data ?exit) ! 0) ! Suc 0 \<noteq> None"
    by code_simp+
  have zero: "sys_ret (answers 0) (length ([]::event list)) = 0"
    by (simp add: answers_def)
  have ab: "cmd_type (cmd (sh_cmd_data ?ab)) = CMD_PIPELINE"
    "pl_len (pipeline (sh_cmd_data ?ab)) = 2"
    by code_simp+
  have neg: "sys_ret (answers (- 1)) (length ([]::event list)) < 0"
    and pos: "0 < sys_ret (answers 5) (length ([]::event list))"
    and par: "\<forall>j<2. sys_ret (answers 5) (length ([]::event list) + 1 + j) \<noteq> 0"
    and pp: "sys_pipe (answers 5) (length ([]::event list)) = (3, 4)"
    by (simp_all add: answers_def)
  have a: "RunCommand (answers (- 1)) ?ls [] =
       (Returns 0, ?ls, [Fork, Diag (ErrorS ''Fork failed\<newline>'')])
     \<and> runSimpleCommand (answers (- 1)) (simples (sh_cmd_data ?ls) ! 0) [] =
       (Returns (- 1), [Fork, Diag (ErrorS ''Fork failed\<newline>'')])"
    using C5_RunCommand_status [of ?ls "answers (- 1)" "[]" 0 0 0] ls neg by simp
  have b: "RunCommand (answers 5) ?ls [] = (Returns 0, ?ls, [Fork, Wait])"
    using C5_RunCommand_status [of ?ls "answers 5" "[]" 0 0 0] ls pos by simp
  have c: "fst (RunCommand (answers 0) ?cd []) = Returns 0"
    using C5_RunCommand_status [of ?cd "answers 0" "[]" 0 0 0] cd by simp
  have d: "fst (RunCommand (answers 0) ?quit []) = Returns 0
     \<and> \<not> sh_should_run (fst (snd (RunCommand (answers 0) ?quit [])))"
    using C5_RunCommand_status [of ?quit "answers 0" "[]" 0 0 0] quit by simp
  have e: "RunCommand (answers 5) ?ab [] =
     (Returns 0, ?ab, [Pipe, Fork, Fork, Close 3, Close 4, Wait, Wait])"
    using C5_RunCommand_status [of ?ab "answers 5" "[]" 0 0 0] ab par pp
    by (simp add: numeral_2_eq_2)
  have f: "\<exists>n. fst (RunCommand (answers 0) ?exit []) = Exits n"
    using C5_RunCommand_status [of ?exit "answers 0" "[]" 0 0 0] exit by simp
  have g: "fst (RunCommand (answers 0) ?ls []) = Replaced
      \<or> (\<exists>n. fst (RunCommand (answers 0) ?ls []) = Exits n)"
    using C5_RunCommand_status [of ?ls "answers 0" "[]" 0 0 0] ls zero by simp
  show ?thesis using a b c d e f g by (intro conjI) simp_all
qed

theorem C5_fork_failure_counterexample:
  "snd (snd (RunCommand (answers (- 1)) (shell_after ''ls\<newline>'') [])) =
     [Fork, Diag (ErrorS ''Fork failed\<newline>'')]
   \<and> fst (RunCommand (answers (- 1)) (shell_after ''ls\<newline>'') []) = Returns 0
   \<and> fst (RunCommand (answers (- 1)) (shell_after ''ls\<newline>'') []) \<noteq> Returns (- 1)"
  by code_simp

subsection \<open>A redirection of type \<^verbatim>\<open>REDIRECT_APPEND\<close>\<close>
















section \<open>Properties of the shell loop\<close>

subsection \<open>A blank line\<close>

text \<open>
  A line of characters that do not stop \<^verbatim>\<open>ReadLine\<close>, shorter than the buffer, is
  copied to the start of the cleared buffer; the newline is consumed and not stored.
\<close>

lemma read_loop_line:
  "list_all (\<lambda>c. \<not> stops_line cs c) s \<Longrightarrow> length s < nleft \<Longrightarrow>
   p + length s \<le> length buffer \<Longrightarrow>
   read_loop cs nleft buffer p (s @ CHR 0x0A # rest) =
     (nleft - length s, take p buffer @ s @ drop (p + length s) buffer, rest)"
proof (induction s arbitrary: nleft buffer p)
  case Nil
  then show ?case by (simp add: stops_line_def)
next
  case (Cons c s)
  have c: "\<not> stops_line cs c" and s: "list_all (\<lambda>c. \<not> stops_line cs c) s"
    using Cons.prems(1) by simp_all
  have n: "0 < nleft" "length s < nleft - 1" using Cons.prems(2) by simp_all
  have p: "p < length buffer" "(p + 1) + length s \<le> length (buffer[p := c])"
    using Cons.prems(3) by simp_all
  have "read_loop cs nleft buffer p ((c # s) @ CHR 0x0A # rest) =
          read_loop cs (nleft - 1) (buffer[p := c]) (p + 1) (s @ CHR 0x0A # rest)"
    using c n by simp
  also have "\<dots> = (nleft - 1 - length s,
        take (p + 1) (buffer[p := c]) @ s @ drop (p + 1 + length s) (buffer[p := c]), rest)"
    by (rule Cons.IH [OF s n(2) p(2)])
  also have "take (p + 1) (buffer[p := c]) = take p buffer @ [c]"
    using p(1) by (simp add: take_Suc_conv_app_nth)
  also have "drop (p + 1 + length s) (buffer[p := c]) = drop (p + length (c # s)) buffer"
    by (simp add: drop_update_cancel)
  finally show ?case by simp
qed

lemma ReadLine_blank:
  assumes s: "list_all (\<lambda>c. \<not> stops_line cs c) s"
    and cap: "length s < length (bl_buffer line)"
  shows "ReadLine cs (ClearLine line) (s @ CHR 0x0A # rest) =
           Inr (\<lparr>bl_len = length s,
                 bl_buffer = s @ replicate (length (bl_buffer line) - length s) (CHR 0x00)\<rparr>, rest)"
proof -
  let ?n = "length (bl_buffer line)"
  have "read_loop cs ?n (replicate ?n (CHR 0x00)) 0 (s @ CHR 0x0A # rest) =
          (?n - length s, take 0 (replicate ?n (CHR 0x00)) @ s
             @ drop (0 + length s) (replicate ?n (CHR 0x00)), rest)"
    by (rule read_loop_line [OF s cap]) (use cap in simp)
  then have rl: "read_loop cs ?n (replicate ?n (CHR 0x00)) 0 (s @ CHR 0x0A # rest) =
          (?n - length s, s @ replicate (?n - length s) (CHR 0x00), rest)"
    by simp
  have "(replicate m c)[0 := c] = replicate m c" for m and c :: char
    by (cases m) simp_all
  then have "(s @ replicate (?n - length s) (CHR 0x00))[length s := CHR 0x00] =
          s @ replicate (?n - length s) (CHR 0x00)"
    by (simp add: list_update_append)
  then show ?thesis
    using cap rl by (simp add: ReadLine_def ClearLine_def Let_def)
qed

lemma spec_token_kinds_blank:
  "list_all (strchr whitespace) s \<Longrightarrow> spec_token_kinds s = []"
  by (induction s) auto

lemma cmd_type_or_pipeline_flag [simp]:
  "cmd_type (cmd (or_pipeline_flag f cd)) = cmd_type (cmd cd)"
  by (simp add: or_pipeline_flag_def Let_def)

lemma ParsePipeline_Nil:
  assumes "0 < max_cmds" "n_simples cd = 0" "pl_len (pipeline cd) = 0"
  shows "cmd_type (cmd (fst (ParsePipeline max_args max_pl max_cmds [] cd))) = CMD_SIMPLE"
proof -
  have lp: "pipeline_loop max_args max_pl max_cmds [] [] cd [] = ([], cd, [])"
    by (subst pipeline_loop.simps) simp
  define k where "k = n_simples cd"
  define cd2 where "cd2 = cd\<lparr>n_simples := k + 1\<rparr>"
  obtain simple ds2 where ps: "ParseSimpleCommand max_args [] (simples cd2 ! k) = (simple, ds2)"
    by (metis prod.exhaust)
  define cd3 where "cd3 = cd2\<lparr>simples := (simples cd2)[k := simple]\<rparr>"
  define cd4 where "cd4 = (if pl_len (pipeline cd3) = 0
                      then cd3\<lparr>cmd := set_command cd3 (cmd cd3) CMD_SIMPLE (SimplePtr k)\<rparr>
                      else cd3)"
  define cd5 where "cd5 =
     (let pl = pipeline cd4;
          cd' = cd4\<lparr>pipeline := pl\<lparr>pl_commands := (pl_commands pl)
                  [pl_len pl := set_command cd4 (pl_commands pl ! pl_len pl) CMD_SIMPLE (SimplePtr k)]\<rparr>\<rparr>
      in cd'\<lparr>pipeline := (pipeline cd')\<lparr>pl_len := pl_len (pipeline cd') + 1\<rparr>\<rparr>)"
  have eq: "ParsePipeline max_args max_pl max_cmds [] cd =
          (if n_simples cd \<ge> max_cmds
           then (or_pipeline_flag CMD_TOO_MANY_COMMANDS cd, [] @ [ErrorU ''Too many commands''])
           else if pl_len (pipeline cd4) \<ge> max_pl
           then (or_pipeline_flag CMD_PIPELINE_TOO_LONG cd4,
                 [] @ ds2 @ [ErrorU ''Pipeline too long''])
           else if pl_len (pipeline cd4) > 0 then (cd5, [] @ ds2)
           else (cd4, [] @ ds2))"
    unfolding ParsePipeline_def cd5_def cd4_def cd3_def cd2_def k_def Let_def
    by (simp only: lp prod.case ps [unfolded cd2_def k_def])
  have "pl_len (pipeline cd3) = 0" using assms(3) by (simp add: cd3_def cd2_def)
  then have t4: "cmd_type (cmd cd4) = CMD_SIMPLE" "pl_len (pipeline cd4) = 0"
    by (simp_all add: cd4_def set_command_def)
  show ?thesis
    unfolding eq using assms(1,2) t4 by simp
qed


lemma strlen_blank:
  assumes "list_all (strchr whitespace) s" "0 < m"
  shows "strlen (s @ replicate m (CHR 0x00)) = length s"
    and "c_string (s @ replicate m (CHR 0x00)) = s"
proof -
  have nz: "c \<noteq> CHR 0x00" if "c \<in> set s" for c
  proof -
    have "strchr whitespace c" using assms(1) that by (simp add: list_all_iff)
    then show ?thesis using nul_class(1) by blast
  qed
  have "takeWhile (\<lambda>c. c \<noteq> CHR 0x00) (s @ replicate m (CHR 0x00)) =
          s @ takeWhile (\<lambda>c. c \<noteq> CHR 0x00) (replicate m (CHR 0x00))"
    by (rule takeWhile_append2) (rule nz)
  moreover have "takeWhile (\<lambda>c. c \<noteq> CHR 0x00) (replicate m (CHR 0x00)) = []"
    using assms(2) by (cases m) simp_all
  ultimately have tw: "takeWhile (\<lambda>c. c \<noteq> CHR 0x00) (s @ replicate m (CHR 0x00)) = s"
    by simp
  show "strlen (s @ replicate m (CHR 0x00)) = length s"
    unfolding strlen_def tw by (rule refl)
  show "c_string (s @ replicate m (CHR 0x00)) = s"
    unfolding c_string_def tw by (rule refl)
qed

lemma Tokenize_blank:
  assumes s: "list_all (strchr whitespace) s" and m: "0 < m"
    and size: "length (tl_tokens tlist) \<le> sizeof_tokens"
  shows "\<exists>line' toks'.
           Tokenize sizeof_tokens \<lparr>bl_len = n, bl_buffer = s @ replicate m (CHR 0x00)\<rparr> tlist =
             Inr (line', \<lparr>tl_len = 0, tl_tokens = toks'\<rparr>)"
proof -
  let ?buf = "s @ replicate m (CHR 0x00)"
  have len: "strlen ?buf = length s" and str: "c_string ?buf = s"
    using strlen_blank [OF s m] by simp_all
  have tail: "strlen ?buf < length ?buf" using len m by simp
  have z: "?buf ! strlen ?buf = CHR 0x00" by (rule nth_strlen [OF tail])
  have nw: "\<not> strchr whitespace (?buf ! strlen ?buf)"
    and ns: "\<not> strchr symbols (?buf ! strlen ?buf)"
    by (simp_all only: z nul_class not_False_eq_True)
  have sp: "spec_token_kinds (seg ?buf (strlen ?buf) 0) = []"
    unfolding seg_strlen str by (rule spec_token_kinds_blank [OF s])
  have room: "0 + length (spec_token_kinds (seg ?buf (strlen ?buf) 0)) \<le> length (tl_tokens tlist)"
    unfolding sp by simp
  have le: "0 \<le> strlen ?buf" by simp
  from tokenize_loop_spec [OF tail le nw ns size room]
  obtain buf' toks' where
    "tokenize_loop sizeof_tokens (strlen ?buf) ?buf 0 0 (tl_tokens tlist) =
       Inr (buf', 0 + length (spec_token_kinds (seg ?buf (strlen ?buf) 0)), toks')"
    by blast
  then have tk: "tokenize_loop sizeof_tokens (strlen ?buf) ?buf 0 0 (tl_tokens tlist) =
       Inr (buf', 0, toks')"
    by (simp only: sp list.size add_0)
  have nge: "\<not> length ?buf \<le> strlen ?buf" using tail by simp
  have "Tokenize sizeof_tokens \<lparr>bl_len = n, bl_buffer = ?buf\<rparr> tlist =
          Inr (\<lparr>bl_len = n, bl_buffer = ?buf\<rparr>\<lparr>bl_buffer := buf'\<rparr>,
               \<lparr>tl_len = 0, tl_tokens = toks'\<rparr>)"
    unfolding Tokenize_def Let_def
    by (simp only: BufferedLine.select_convs tk nge if_False sum.case prod.case)
  then show ?thesis by blast
qed


text \<open>
  C1. The claim: for a line that is empty or holds only whitespace the parser produces an
  Empty command, \<^verbatim>\<open>RunCommand\<close> returns 1 with no side effect, and the shell keeps
  running. The code does neither. For a line of one or more whitespace characters before
  the newline, \<^verbatim>\<open>GetCommand\<close> returns the number of characters, the lexer stores no
  token, and \<^verbatim>\<open>ParsePipeline\<close> wraps the simple command, itself of type
  \<^verbatim>\<open>CMD_EMPTY\<close>, in a command of type \<^verbatim>\<open>CMD_SIMPLE\<close>: the branch of
  \<^verbatim>\<open>RunCommand\<close> that returns 1 is not taken, whatever the operating system answers.
  For a line that is only the newline, \<^verbatim>\<open>ReadLine\<close> returns 0, which
  \<^verbatim>\<open>GetCommand\<close> treats as the end of the input: it clears \<^verbatim>\<open>should_run\<close>, and the
  loop of \<^verbatim>\<open>main\<close> ends.
\<close>

theorem C1_blank_line_is_not_an_empty_command:
  assumes ne: "ws \<noteq> []"
    and ws: "list_all (\<lambda>c. strchr whitespace c \<and> c \<noteq> CHR 0x0A) ws"
    and cap: "length ws < length (bl_buffer (sh_cmdline shell))"
    and size: "length (tl_tokens (sh_tokens shell)) \<le> cfg_sizeof_tokens cfg"
    and cmds: "0 < cfg_max_cmds cfg"
  shows "(\<exists>shell' tr'.
            GetCommand cfg shell (ws @ CHR 0x0A # rest) tr =
              (Returns (int (length ws)), shell', rest, tr')
          \<and> cmd_type (cmd (sh_cmd_data shell')) = CMD_SIMPLE
          \<and> fst (RunCommand env shell' tr') \<noteq> Returns 1)
       \<and> (\<exists>shell'.
            GetCommand cfg shell (CHR 0x0A # rest) tr =
              (Returns 0, shell', rest, tr @ [Write 1 (sh_prompt shell)])
          \<and> \<not> sh_should_run shell')"
proof
  let ?cs = "cfg_char_signed cfg"
  let ?n = "length (bl_buffer (sh_cmdline shell))"
  let ?buf = "ws @ replicate (?n - length ws) (CHR 0x00)"
  let ?line = "\<lparr>bl_len = length ws, bl_buffer = ?buf\<rparr>"
  have w: "list_all (strchr whitespace) ws"
    using ws by (simp add: list_all_iff)
  have st: "list_all (\<lambda>c. \<not> stops_line ?cs c) ws"
    using ws by (auto simp: list_all_iff stops_line_def strchr_def whitespace_def)
  have rl: "ReadLine ?cs (ClearLine (sh_cmdline shell)) (ws @ CHR 0x0A # rest) = Inr (?line, rest)"
    by (rule ReadLine_blank [OF st cap])
  have m: "0 < ?n - length ws" using cap by simp
  from Tokenize_blank [OF w m size, of "length ws"]
  obtain line' toks' where tk:
    "Tokenize (cfg_sizeof_tokens cfg) ?line (sh_tokens shell) =
       Inr (line', \<lparr>tl_len = 0, tl_tokens = toks'\<rparr>)"
    by blast
  let ?cd0 = "sh_cmd_data shell"
  let ?cd1 = "?cd0\<lparr>n_simples := 0, pipeline := (pipeline ?cd0)\<lparr>pl_len := 0\<rparr>\<rparr>"
  obtain cd2 ds where pc:
    "ParseCommand (cfg_max_args cfg) (cfg_max_pipeline cfg) (cfg_max_cmds cfg) [] ?cd1 = (cd2, ds)"
    by (metis prod.exhaust)
  have ty: "cmd_type (cmd cd2) = CMD_SIMPLE"
    using ParsePipeline_Nil [OF cmds, of ?cd1 "cfg_max_args cfg" "cfg_max_pipeline cfg"] pc
    by (simp add: ParseCommand_def)
  let ?shell' = "shell\<lparr>sh_cmdline := line', sh_tokens := \<lparr>tl_len = 0, tl_tokens = toks'\<rparr>,
                        sh_cmd_data := cd2\<rparr>"
  let ?tr' = "tr @ [Write 1 (sh_prompt shell)] @ map Diag ds"
  have pos: "0 < length ws" using ne by simp
  have gc: "GetCommand cfg shell (ws @ CHR 0x0A # rest) tr =
              (Returns (int (length ws)), ?shell', rest, ?tr')"
    using pos by (simp add: GetCommand_def Let_def rl tk pc)
  have "fst (RunCommand env ?shell' ?tr') \<noteq> Returns 1"
  proof
    assume "fst (RunCommand env ?shell' ?tr') = Returns 1"
    then obtain sh t where "RunCommand env ?shell' ?tr' = (Returns 1, sh, t)"
      by (metis fst_conv prod_cases3)
    from RunCommand_returns [OF this] ty show False by simp
  qed
  then show "\<exists>shell' tr'.
            GetCommand cfg shell (ws @ CHR 0x0A # rest) tr =
              (Returns (int (length ws)), shell', rest, tr')
          \<and> cmd_type (cmd (sh_cmd_data shell')) = CMD_SIMPLE
          \<and> fst (RunCommand env shell' tr') \<noteq> Returns 1"
    using gc ty by (intro exI [of _ ?shell'] exI [of _ ?tr']) simp
next
  let ?cs = "cfg_char_signed cfg"
  let ?n = "length (bl_buffer (sh_cmdline shell))"
  have cap0: "length ([]::char list) < ?n"
    using cap by (cases "bl_buffer (sh_cmdline shell)") simp_all
  have "ReadLine ?cs (ClearLine (sh_cmdline shell)) ([] @ CHR 0x0A # rest) =
          Inr (\<lparr>bl_len = length ([]::char list),
                bl_buffer = [] @ replicate (?n - length ([]::char list)) (CHR 0x00)\<rparr>, rest)"
    by (rule ReadLine_blank [OF _ cap0]) simp
  then have "GetCommand cfg shell (CHR 0x0A # rest) tr =
      (Returns 0,
       shell\<lparr>sh_cmdline := \<lparr>bl_len = 0, bl_buffer = replicate ?n (CHR 0x00)\<rparr>,
             sh_should_run := False, sh_last_exit_status := 0\<rparr>,
       rest, tr @ [Write 1 (sh_prompt shell)])"
    by (simp add: GetCommand_def Let_def)
  then show "\<exists>shell'.
            GetCommand cfg shell (CHR 0x0A # rest) tr =
              (Returns 0, shell', rest, tr @ [Write 1 (sh_prompt shell)])
          \<and> \<not> sh_should_run shell'"
    by simp
qed


theorem C1_blank_line_witness:
  "fst (GetCommand demo_cfg (initial_shell demo_cfg 32 16) [CHR 0x20, CHR 0x0A] []) = Returns 1
   \<and> cmd_type (cmd (sh_cmd_data (shell_after [CHR 0x20, CHR 0x0A]))) = CMD_SIMPLE
   \<and> sc_type (simples (sh_cmd_data (shell_after [CHR 0x20, CHR 0x0A])) ! 0) = CMD_EMPTY
   \<and> fst (RunCommand (answers 5) (shell_after [CHR 0x20, CHR 0x0A]) [])
       = Faults (NullPointer ''cmd->name'')
   \<and> fst (GetCommand demo_cfg (initial_shell demo_cfg 32 16) [CHR 0x0A] []) = Returns 0
   \<and> \<not> sh_should_run (shell_after [CHR 0x0A])"
proof -
  let ?sh = "initial_shell demo_cfg 32 16"
  have h: "[CHR 0x20] \<noteq> []"
    "list_all (\<lambda>c. strchr whitespace c \<and> c \<noteq> CHR 0x0A) [CHR 0x20]"
    "length [CHR 0x20] < length (bl_buffer (sh_cmdline ?sh))"
    "length (tl_tokens (sh_tokens ?sh)) \<le> cfg_sizeof_tokens demo_cfg"
    "0 < cfg_max_cmds demo_cfg"
    by (simp_all add: strchr_def whitespace_def initial_shell_def demo_cfg_def)
  have ev: "sc_type (simples (sh_cmd_data (shell_after [CHR 0x20, CHR 0x0A])) ! 0) = CMD_EMPTY"
    "fst (RunCommand (answers 5) (shell_after [CHR 0x20, CHR 0x0A]) [])
       = Faults (NullPointer ''cmd->name'')"
    by code_simp+
  from C1_blank_line_is_not_an_empty_command [OF h, of "[]" "[]" "answers 5"]
  have "fst (GetCommand demo_cfg ?sh [CHR 0x20, CHR 0x0A] []) = Returns 1
      \<and> cmd_type (cmd (sh_cmd_data (shell_after [CHR 0x20, CHR 0x0A]))) = CMD_SIMPLE
      \<and> fst (GetCommand demo_cfg ?sh [CHR 0x0A] []) = Returns 0
      \<and> \<not> sh_should_run (shell_after [CHR 0x0A])"
    by (auto simp: shell_after_def)
  then show ?thesis using ev by simp
qed

end
